theory Spec2Isabelle
  imports Main "HOL-Library.Word"
begin

unbundle bit_operations_syntax

section \<open>Data model of stack/nic.go\<close>

text \<open>
  Go strings are byte sequences, so addresses, link addresses and views are lists of
  bytes.  Pointers to \<open>referencedNetworkEndpoint\<close> and to \<open>NIC\<close> objects are
  addresses into two stores held by the world state; pointer equality in the source is
  equality of these addresses.
\<close>

type_synonym Address = "8 word list"
type_synonym LinkAddress = "8 word list"
type_synonym NICID = "32 word"
type_synonym NetworkProtocolNumber = "32 word"
type_synonym TransportProtocolNumber = "32 word"
type_synonym View = "8 word list"
type_synonym VectorisedView = "View list"
type_synonym ControlType = int
type_synonym refptr = nat
type_synonym nicptr = nat

text \<open>\<open>NetworkEndpointID\<close> is a struct with the single field \<open>LocalAddress\<close>.\<close>

type_synonym NetworkEndpointID = Address

datatype PrimaryEndpointBehavior =
  CanBePrimaryEndpoint | FirstPrimaryEndpoint | NeverPrimaryEndpoint

datatype Error =
  ErrUnknownProtocol | ErrDuplicateAddress | ErrBadLocalAddress | ErrNoLinkAddress
  | ErrNoRoute | ErrOther nat

text \<open>
  The ways the code of this file stops the process: the explicit \<open>panic\<close> of
  \<open>removeEndpointLocked\<close>, the run-time panic of calling \<open>Front\<close> on the nil list
  that a missing key of \<open>n.primary\<close> yields, and the explicit \<open>panic\<close> of \<open>Subnets\<close>.
\<close>

datatype panic = RefCountDroppedBeforeRemoved | NilListDereference | InvalidEndpointSubnet

text \<open>
  Modelled from the spec: \<open>tcpip.Subnet\<close> (package tcpip is not among the sources) is
  an address-range descriptor, an address with a mask of the same length;
  \<open>Contains\<close> holds for the addresses of that length whose masked bytes are the
  subnet's, \<open>ID\<close> is the subnet's address, and the zero value has empty address and mask.
\<close>

record Subnet =
  sn_address :: Address
  sn_mask :: "8 word list"

definition zero_Subnet :: Subnet where
  "zero_Subnet = \<lparr>sn_address = [], sn_mask = []\<rparr>"

definition Contains :: "Subnet \<Rightarrow> Address \<Rightarrow> bool" where
  "Contains s a \<longleftrightarrow>
     length a = length (sn_address s) \<and>
     list_all (\<lambda>(x, m, b). x AND m = b) (zip a (zip (sn_mask s) (sn_address s)))"

definition Subnet_ID :: "Subnet \<Rightarrow> Address" where
  "Subnet_ID s = sn_address s"

text \<open>
  Modelled from the spec: \<open>tcpip.NewSubnet\<close> fails when address and mask differ in
  length or the address has a bit outside the mask.
\<close>

definition NewSubnet :: "Address \<Rightarrow> 8 word list \<Rightarrow> Subnet option" where
  "NewSubnet a m =
     (if length a \<noteq> length m then None
      else if list_ex (\<lambda>(x, k). x AND NOT k \<noteq> 0) (zip a m) then None
      else Some \<lparr>sn_address = a, sn_mask = m\<rparr>)"

text \<open>
  Modelled from the spec: a \<open>Route\<close> (route.go is not among the sources) carries the
  protocol, the two network addresses, the two link addresses and the binding it goes
  through; \<open>makeRoute\<close> fills all but the remote link address.
\<close>

record Route =
  NetProto :: NetworkProtocolNumber
  LocalAddress :: Address
  RemoteAddress :: Address
  LocalLinkAddress :: LinkAddress
  RemoteLinkAddress :: LinkAddress
  route_ref :: refptr

definition makeRoute ::
  "NetworkProtocolNumber \<Rightarrow> Address \<Rightarrow> Address \<Rightarrow> LinkAddress \<Rightarrow> refptr \<Rightarrow> Route" where
  "makeRoute netProto localAddr remoteAddr localLinkAddr rf =
     \<lparr>NetProto = netProto, LocalAddress = localAddr, RemoteAddress = remoteAddr,
      LocalLinkAddress = localLinkAddr, RemoteLinkAddress = [], route_ref = rf\<rparr>"

datatype TransportEndpointID =
  TransportEndpointID (LocalPort: "16 word") (tid_LocalAddress: Address)
                      (RemotePort: "16 word") (tid_RemoteAddress: Address)

text \<open>
  The collaborators of the interface are interfaces in Go; each is the record of what
  its methods return.  A network endpoint is known to this file by its identity only;
  its \<open>Close\<close> and \<open>HandlePacket\<close> are calls out of the file and are recorded as events.
\<close>

record NetworkEndpoint =
  ep_ID :: NetworkEndpointID

record NetworkProtocol =
  Number :: NetworkProtocolNumber
  MinimumPacketSize :: int
  ParseAddresses :: "View \<Rightarrow> Address \<times> Address"
  NewEndpoint :: "NICID \<Rightarrow> Address \<Rightarrow> Error + NetworkEndpoint"

record TransportProtocol =
  tp_MinimumPacketSize :: int
  ParsePorts :: "View \<Rightarrow> Error + (16 word \<times> 16 word)"
  HandleUnknownDestinationPacket :: "Route \<Rightarrow> TransportEndpointID \<Rightarrow> VectorisedView \<Rightarrow> bool"

record transportProtocolState =
  proto :: TransportProtocol
  defaultHandler :: "(Route \<Rightarrow> TransportEndpointID \<Rightarrow> VectorisedView \<Rightarrow> bool) option"

record transportDemuxer =
  deliverPacket ::
    "Route \<Rightarrow> TransportProtocolNumber \<Rightarrow> VectorisedView \<Rightarrow> TransportEndpointID \<Rightarrow> bool"
  deliverControlPacket ::
    "NetworkProtocolNumber \<Rightarrow> TransportProtocolNumber \<Rightarrow> ControlType \<Rightarrow> 32 word
       \<Rightarrow> VectorisedView \<Rightarrow> TransportEndpointID \<Rightarrow> bool"

record LinkEndpoint =
  LinkAddress :: LinkAddress
  Capabilities :: "32 word"

text \<open>
  The owning stack (stack.go is not among the sources) enters as the tables and
  operations this file reads from it: the protocol tables, the link address resolvers,
  the forwarding flag, the global demultiplexer and route finding.  The constant
  \<open>CapabilityResolutionRequired\<close> is declared outside the sources and is a parameter.
  \<open>FindRoute\<close> is called with the fixed arguments \<open>0\<close> and \<open>""\<close>, the destination and
  the protocol; the reference a route holds on its binding is taken and given back
  outside this file and is not counted here.
\<close>

record Stack =
  networkProtocols :: "NetworkProtocolNumber \<rightharpoonup> NetworkProtocol"
  transportProtocols :: "TransportProtocolNumber \<rightharpoonup> transportProtocolState"
  linkAddrResolvers :: "NetworkProtocolNumber set"
  Forwarding :: bool
  stack_demux :: transportDemuxer
  FindRoute :: "NICID \<Rightarrow> Address \<Rightarrow> Address \<Rightarrow> NetworkProtocolNumber \<Rightarrow> Error + Route"
  CapabilityResolutionRequired :: "32 word"

record Stats =
  UnknownProtocolRcvdPackets :: "64 word"
  MalformedRcvdPackets :: "64 word"
  IP_PacketsReceived :: "64 word"
  IP_InvalidAddressesReceived :: "64 word"

record referencedNetworkEndpoint =
  refs :: "32 word"
  ep :: NetworkEndpoint
  nic :: nicptr
  protocol :: NetworkProtocolNumber
  linkCache :: bool
  holdsInsertRef :: bool

text \<open>
  Modelled from the spec: the intrusive \<open>ilist.List\<close> (package ilist is not among the
  sources) is an ordered sequence of binding references with insertion at either end
  and removal by identity; an entry is linked at most once.  \<open>n.primary\<close> maps a
  protocol to such a sequence, \<open>n.endpoints\<close> an endpoint id to a binding.
\<close>

record NIC =
  nic_id :: NICID
  linkEP :: LinkEndpoint
  demux :: transportDemuxer
  spoofing :: bool
  promiscuous :: bool
  primary :: "NetworkProtocolNumber \<rightharpoonup> refptr list"
  endpoints :: "NetworkEndpointID \<rightharpoonup> refptr"
  subnets :: "Subnet list"

text \<open>Every call out of the file that a claim observes is an event of the trace.\<close>

datatype event =
  EvClose refptr
  | EvHandlePacket refptr Route VectorisedView
  | EvWritePacket nicptr Route View VectorisedView NetworkProtocolNumber
  | EvRelease Route
  | EvNicDemux nicptr Route TransportProtocolNumber VectorisedView TransportEndpointID
  | EvStackDemux Route TransportProtocolNumber VectorisedView TransportEndpointID
  | EvDefaultHandler Route TransportEndpointID VectorisedView
  | EvUnknownDestination Route TransportEndpointID VectorisedView
  | EvNicControl nicptr NetworkProtocolNumber TransportProtocolNumber ControlType "32 word"
      VectorisedView TransportEndpointID
  | EvStackControl NetworkProtocolNumber TransportProtocolNumber ControlType "32 word"
      VectorisedView TransportEndpointID

record world =
  stack :: Stack
  nics :: "nicptr \<Rightarrow> NIC"
  heap :: "refptr \<Rightarrow> referencedNetworkEndpoint"
  next_ref :: refptr
  stats :: Stats
  trace :: "event list"

text \<open>
  A function of the source either returns, with its results and the state it leaves,
  or panics, leaving the state reached at the panic.
\<close>

datatype 'a outcome = Panics panic world | Returns 'a world

fun world_of :: "'a outcome \<Rightarrow> world" where
  "world_of (Panics p w) = w"
| "world_of (Returns x w) = w"

fun returned :: "'a outcome \<Rightarrow> 'a option" where
  "returned (Panics p w) = None"
| "returned (Returns x w) = Some x"

definition upd_nic :: "world \<Rightarrow> nicptr \<Rightarrow> (NIC \<Rightarrow> NIC) \<Rightarrow> world" where
  "upd_nic w n f = w\<lparr>nics := (nics w)(n := f (nics w n))\<rparr>"

definition upd_ref ::
  "world \<Rightarrow> refptr \<Rightarrow> (referencedNetworkEndpoint \<Rightarrow> referencedNetworkEndpoint) \<Rightarrow> world" where
  "upd_ref w r f = w\<lparr>heap := (heap w)(r := f (heap w r))\<rparr>"

definition emit :: "world \<Rightarrow> event \<Rightarrow> world" where
  "emit w e = w\<lparr>trace := trace w @ [e]\<rparr>"

section \<open>The reference count\<close>

text \<open>\<open>atomic.AddInt32(&r.refs, delta)\<close>: the new value and the state.\<close>

definition AddInt32_refs :: "world \<Rightarrow> refptr \<Rightarrow> 32 word \<Rightarrow> 32 word \<times> world" where
  "AddInt32_refs w r delta =
     (refs (heap w r) + delta, upd_ref w r (\<lambda>R. R\<lparr>refs := refs R + delta\<rparr>))"

definition incRef :: "world \<Rightarrow> refptr \<Rightarrow> world" where
  "incRef w r = snd (AddInt32_refs w r 1)"

text \<open>
  \<open>tryIncRef\<close>: with no other thread between the load and the compare-and-swap the
  loop body runs once.
\<close>

definition tryIncRef :: "world \<Rightarrow> refptr \<Rightarrow> bool \<times> world" where
  "tryIncRef w r =
     (let v = refs (heap w r) in
      if v = 0 then (False, w)
      else (True, upd_ref w r (\<lambda>R. R\<lparr>refs := v + 1\<rparr>)))"

section \<open>Teardown\<close>

text \<open>
  \<open>removeEndpointLocked\<close>, with the interface as its first argument.  The test
  \<open>wasInList\<close> reads the entry's links and the front of the list of the binding's
  protocol; on the sequence it is membership, and \<open>Front\<close> on the nil list that a missing
  key yields is the run-time panic.  \<open>decRef\<close> is the atomic decrement followed, when
  the new value is zero, by \<open>removeEndpoint\<close> on the binding's interface.
\<close>

definition removeEndpointLocked :: "world \<Rightarrow> nicptr \<Rightarrow> refptr \<Rightarrow> unit outcome" where
  "removeEndpointLocked w n r =
     (let R = heap w r; ident = ep_ID (ep R) in
      if endpoints (nics w n) ident \<noteq> Some r then Returns () w
      else if holdsInsertRef R then Panics RefCountDroppedBeforeRemoved w
      else
        let w1 = upd_nic w n (\<lambda>N. N\<lparr>endpoints := (endpoints N)(ident := None)\<rparr>) in
        (case primary (nics w1 n) (protocol R) of
           None \<Rightarrow> Panics NilListDereference w1
         | Some l \<Rightarrow>
             let wasInList = (r \<in> set l);
                 w2 = (if wasInList
                       then upd_nic w1 n (\<lambda>N. N\<lparr>primary := (primary N)(protocol R \<mapsto> removeAll r l)\<rparr>)
                       else w1)
             in Returns () (emit w2 (EvClose r))))"

definition removeEndpoint :: "world \<Rightarrow> refptr \<Rightarrow> unit outcome" where
  "removeEndpoint w r = removeEndpointLocked w (nic (heap w r)) r"

definition decRef :: "world \<Rightarrow> refptr \<Rightarrow> unit outcome" where
  "decRef w r =
     (case AddInt32_refs w r (- 1) of
        (v, w1) \<Rightarrow> if v = 0 then removeEndpoint w1 r else Returns () w1)"

section \<open>Address management\<close>

definition newNIC :: "NICID \<Rightarrow> LinkEndpoint \<Rightarrow> transportDemuxer \<Rightarrow> NIC" where
  "newNIC ident lep dm =
     \<lparr>nic_id = ident, linkEP = lep, demux = dm, spoofing = False, promiscuous = False,
      primary = Map.empty, endpoints = Map.empty, subnets = []\<rparr>"

definition setPromiscuousMode :: "world \<Rightarrow> nicptr \<Rightarrow> bool \<Rightarrow> world" where
  "setPromiscuousMode w n enable = upd_nic w n (\<lambda>N. N\<lparr>promiscuous := enable\<rparr>)"

definition isPromiscuousMode :: "world \<Rightarrow> nicptr \<Rightarrow> bool" where
  "isPromiscuousMode w n = promiscuous (nics w n)"

definition setSpoofing :: "world \<Rightarrow> nicptr \<Rightarrow> bool \<Rightarrow> world" where
  "setSpoofing w n enable = upd_nic w n (\<lambda>N. N\<lparr>spoofing := enable\<rparr>)"

text \<open>
  Lines 251 to 282 of \<open>addAddressLocked\<close>: the fresh binding is allocated at
  \<open>next_ref\<close>, registered under the endpoint's id and linked into the protocol's list
  as the primacy option says.
\<close>

definition PushBack :: "refptr list \<Rightarrow> refptr \<Rightarrow> refptr list" where
  "PushBack l r = l @ [r]"

definition PushFront :: "refptr list \<Rightarrow> refptr \<Rightarrow> refptr list" where
  "PushFront l r = r # l"

definition registerEndpoint ::
  "world \<Rightarrow> nicptr \<Rightarrow> NetworkProtocolNumber \<Rightarrow> NetworkEndpoint \<Rightarrow> PrimaryEndpointBehavior
     \<Rightarrow> refptr \<times> world" where
  "registerEndpoint w n prot e peb =
     (let rf = next_ref w;
          R = \<lparr>refs = 1, ep = e, nic = n, protocol = prot,
               linkCache =
                 (Capabilities (linkEP (nics w n)) AND CapabilityResolutionRequired (stack w) \<noteq> 0
                  \<and> prot \<in> linkAddrResolvers (stack w)),
               holdsInsertRef = True\<rparr>;
          w1 = w\<lparr>heap := (heap w)(rf := R), next_ref := Suc rf\<rparr>;
          w2 = upd_nic w1 n (\<lambda>N. N\<lparr>endpoints := (endpoints N)(ep_ID e \<mapsto> rf)\<rparr>);
          l = (case primary (nics w2 n) prot of None \<Rightarrow> [] | Some l' \<Rightarrow> l');
          l2 = (case peb of
                  CanBePrimaryEndpoint \<Rightarrow> PushBack l rf
                | FirstPrimaryEndpoint \<Rightarrow> PushFront l rf
                | NeverPrimaryEndpoint \<Rightarrow> l);
          w3 = upd_nic w2 n (\<lambda>N. N\<lparr>primary := (primary N)(prot \<mapsto> l2)\<rparr>)
      in (rf, w3))"

definition addAddressLocked ::
  "world \<Rightarrow> nicptr \<Rightarrow> NetworkProtocolNumber \<Rightarrow> Address \<Rightarrow> PrimaryEndpointBehavior \<Rightarrow> bool
     \<Rightarrow> (Error + refptr) outcome" where
  "addAddressLocked w n prot addr peb replace =
     (case networkProtocols (stack w) prot of
        None \<Rightarrow> Returns (Inl ErrUnknownProtocol) w
      | Some netProto \<Rightarrow>
          (case NewEndpoint netProto (nic_id (nics w n)) addr of
             Inl err \<Rightarrow> Returns (Inl err) w
           | Inr e \<Rightarrow>
               (case endpoints (nics w n) (ep_ID e) of
                  Some old \<Rightarrow>
                    if \<not> replace then Returns (Inl ErrDuplicateAddress) w
                    else
                      (case removeEndpointLocked w n old of
                         Panics p w' \<Rightarrow> Panics p w'
                       | Returns u w' \<Rightarrow>
                           (case registerEndpoint w' n prot e peb of
                              (rf, w'') \<Rightarrow> Returns (Inr rf) w''))
                | None \<Rightarrow>
                    (case registerEndpoint w n prot e peb of
                       (rf, w'') \<Rightarrow> Returns (Inr rf) w''))))"

definition AddAddressWithOptions ::
  "world \<Rightarrow> nicptr \<Rightarrow> NetworkProtocolNumber \<Rightarrow> Address \<Rightarrow> PrimaryEndpointBehavior
     \<Rightarrow> Error option outcome" where
  "AddAddressWithOptions w n prot addr peb =
     (case addAddressLocked w n prot addr peb False of
        Panics p w' \<Rightarrow> Panics p w'
      | Returns (Inl err) w' \<Rightarrow> Returns (Some err) w'
      | Returns (Inr rf) w' \<Rightarrow> Returns None w')"

definition AddAddress ::
  "world \<Rightarrow> nicptr \<Rightarrow> NetworkProtocolNumber \<Rightarrow> Address \<Rightarrow> Error option outcome" where
  "AddAddress w n prot addr = AddAddressWithOptions w n prot addr CanBePrimaryEndpoint"

definition RemoveAddress :: "world \<Rightarrow> nicptr \<Rightarrow> Address \<Rightarrow> Error option outcome" where
  "RemoveAddress w n addr =
     (case endpoints (nics w n) addr of
        None \<Rightarrow> Returns (Some ErrBadLocalAddress) w
      | Some r \<Rightarrow>
          if \<not> holdsInsertRef (heap w r) then Returns (Some ErrBadLocalAddress) w
          else
            (case decRef (upd_ref w r (\<lambda>R. R\<lparr>holdsInsertRef := False\<rparr>)) r of
               Panics p w' \<Rightarrow> Panics p w'
             | Returns u w' \<Rightarrow> Returns None w'))"

definition AddSubnet :: "world \<Rightarrow> nicptr \<Rightarrow> NetworkProtocolNumber \<Rightarrow> Subnet \<Rightarrow> world" where
  "AddSubnet w n prot subnet = upd_nic w n (\<lambda>N. N\<lparr>subnets := subnets N @ [subnet]\<rparr>)"

definition RemoveSubnet :: "world \<Rightarrow> nicptr \<Rightarrow> Subnet \<Rightarrow> world" where
  "RemoveSubnet w n subnet =
     upd_nic w n (\<lambda>N. N\<lparr>subnets := filter (\<lambda>sub. sub \<noteq> subnet) (subnets N)\<rparr>)"

text \<open>
  Go ranges over a map in an order of its choosing; the order is the parameter \<open>ks\<close>,
  a list of the registry's keys.
\<close>

definition range_endpoints :: "NIC \<Rightarrow> NetworkEndpointID list \<Rightarrow> (NetworkEndpointID \<times> refptr) list" where
  "range_endpoints N ks = List.map_filter (\<lambda>k. map_option (Pair k) (endpoints N k)) ks"

fun endpoint_subnets :: "NetworkEndpointID list \<Rightarrow> Subnet list option" where
  "endpoint_subnets [] = Some []"
| "endpoint_subnets (nid # nids) =
     (case NewSubnet nid (replicate (length nid) 255) of
        None \<Rightarrow> None
      | Some sn \<Rightarrow> map_option ((#) sn) (endpoint_subnets nids))"

definition Subnets :: "world \<Rightarrow> nicptr \<Rightarrow> NetworkEndpointID list \<Rightarrow> Subnet list outcome" where
  "Subnets w n ks =
     (case endpoint_subnets (map fst (range_endpoints (nics w n) ks)) of
        None \<Rightarrow> Panics InvalidEndpointSubnet w
      | Some sns \<Rightarrow> Returns (sns @ subnets (nics w n)) w)"

definition ContainsSubnet :: "world \<Rightarrow> nicptr \<Rightarrow> NetworkEndpointID list \<Rightarrow> Subnet \<Rightarrow> bool outcome" where
  "ContainsSubnet w n ks subnet =
     (case Subnets w n ks of
        Panics p w' \<Rightarrow> Panics p w'
      | Returns sns w' \<Rightarrow> Returns (list_ex (\<lambda>s. s = subnet) sns) w')"

definition Addresses ::
  "world \<Rightarrow> nicptr \<Rightarrow> NetworkEndpointID list \<Rightarrow> (NetworkProtocolNumber \<times> Address) list" where
  "Addresses w n ks =
     map (\<lambda>(nid, rf). (protocol (heap w rf), nid)) (range_endpoints (nics w n) ks)"

section \<open>Endpoint resolution\<close>

text \<open>
  Modelled from the spec: the constants of package header (not among the sources) are
  the EtherType numbers of IPv4 and IPv6 and the two IPv4 addresses that never serve as
  a primary endpoint.
\<close>

definition IPv4ProtocolNumber :: NetworkProtocolNumber where
  "IPv4ProtocolNumber = 0x0800"

definition IPv6ProtocolNumber :: NetworkProtocolNumber where
  "IPv6ProtocolNumber = 0x86dd"

definition IPv4Broadcast :: Address where
  "IPv4Broadcast = [255, 255, 255, 255]"

definition IPv4Any :: Address where
  "IPv4Any = [0, 0, 0, 0]"

text \<open>The test \<open>ref, ok := n.endpoints[id]; ok && ref.tryIncRef()\<close> shared by the lookups.\<close>

definition lookupRef :: "world \<Rightarrow> nicptr \<Rightarrow> NetworkEndpointID \<Rightarrow> refptr option \<times> world" where
  "lookupRef w n ident =
     (case endpoints (nics w n) ident of
        None \<Rightarrow> (None, w)
      | Some rf \<Rightarrow> (case tryIncRef w rf of (ok, w') \<Rightarrow> (if ok then Some rf else None, w')))"

text \<open>
  The loop body \<open>ref.holdsInsertRef && ref.tryIncRef()\<close> of \<open>getMainNICAddress\<close>, over
  the bindings in the order given.
\<close>

fun firstHolder :: "world \<Rightarrow> refptr list \<Rightarrow> refptr option \<times> world" where
  "firstHolder w [] = (None, w)"
| "firstHolder w (rf # rfs) =
     (if holdsInsertRef (heap w rf)
      then (case tryIncRef w rf of (ok, w') \<Rightarrow> if ok then (Some rf, w') else firstHolder w' rfs)
      else firstHolder w rfs)"

definition leastConstrained :: "Subnet list \<Rightarrow> Address \<Rightarrow> Subnet" where
  "leastConstrained sns address =
     fold (\<lambda>s subnet. if Contains s address \<and> \<not> Contains subnet (Subnet_ID s) then s else subnet)
          sns zero_Subnet"

definition getMainNICAddress ::
  "world \<Rightarrow> nicptr \<Rightarrow> NetworkProtocolNumber \<Rightarrow> NetworkEndpointID list
     \<Rightarrow> (Error + Address \<times> Subnet) outcome" where
  "getMainNICAddress w n prot ks =
     (case (case primary (nics w n) prot of
              None \<Rightarrow> (None, w)
            | Some l \<Rightarrow> firstHolder w l) of
        (r1, w1) \<Rightarrow>
          (case (case r1 of
                   None \<Rightarrow> firstHolder w1 (map snd (range_endpoints (nics w1 n) ks))
                 | Some rf \<Rightarrow> (Some rf, w1)) of
             (None, w2) \<Rightarrow> Returns (Inl ErrNoLinkAddress) w2
           | (Some rf, w2) \<Rightarrow>
               let address = ep_ID (ep (heap w2 rf)) in
               (case decRef w2 rf of
                  Panics p w3 \<Rightarrow> Panics p w3
                | Returns u w3 \<Rightarrow>
                    Returns (Inr (address, leastConstrained (subnets (nics w3 n)) address)) w3)))"

fun firstPrimary :: "world \<Rightarrow> refptr list \<Rightarrow> refptr option \<times> world" where
  "firstPrimary w [] = (None, w)"
| "firstPrimary w (rf # rfs) =
     (let a = ep_ID (ep (heap w rf)) in
      if a = IPv4Broadcast \<or> a = IPv4Any then firstPrimary w rfs
      else (case tryIncRef w rf of (ok, w') \<Rightarrow> if ok then (Some rf, w') else firstPrimary w' rfs))"

definition primaryEndpoint :: "world \<Rightarrow> nicptr \<Rightarrow> NetworkProtocolNumber \<Rightarrow> refptr option \<times> world" where
  "primaryEndpoint w n prot =
     (case primary (nics w n) prot of
        None \<Rightarrow> (None, w)
      | Some l \<Rightarrow> firstPrimary w l)"

text \<open>
  The tail shared by \<open>findEndpoint\<close> and \<open>getRef\<close>: bind the address with replace
  allowed and clear the registration bit of the binding obtained.
\<close>

definition addTemporary ::
  "world \<Rightarrow> nicptr \<Rightarrow> NetworkProtocolNumber \<Rightarrow> Address \<Rightarrow> PrimaryEndpointBehavior
     \<Rightarrow> refptr option outcome" where
  "addTemporary w n prot addr peb =
     (case addAddressLocked w n prot addr peb True of
        Panics p w' \<Rightarrow> Panics p w'
      | Returns (Inl err) w' \<Rightarrow> Returns None w'
      | Returns (Inr rf) w' \<Rightarrow>
          Returns (Some rf) (upd_ref w' rf (\<lambda>R. R\<lparr>holdsInsertRef := False\<rparr>)))"

definition findEndpoint ::
  "world \<Rightarrow> nicptr \<Rightarrow> NetworkProtocolNumber \<Rightarrow> Address \<Rightarrow> PrimaryEndpointBehavior
     \<Rightarrow> refptr option outcome" where
  "findEndpoint w n prot address peb =
     (case lookupRef w n address of
        (rf, w1) \<Rightarrow>
          if rf \<noteq> None \<or> \<not> spoofing (nics w1 n) then Returns rf w1
          else
            (case lookupRef w1 n address of
               (Some rf2, w2) \<Rightarrow> Returns (Some rf2) w2
             | (None, w2) \<Rightarrow> addTemporary w2 n prot address peb))"

definition getRef ::
  "world \<Rightarrow> nicptr \<Rightarrow> NetworkProtocolNumber \<Rightarrow> Address \<Rightarrow> refptr option outcome" where
  "getRef w n prot dst =
     (case lookupRef w n dst of
        (Some rf, w1) \<Rightarrow> Returns (Some rf) w1
      | (None, w1) \<Rightarrow>
          if promiscuous (nics w1 n) \<or> list_ex (\<lambda>sn. Contains sn dst) (subnets (nics w1 n))
          then
            (case lookupRef w1 n dst of
               (Some rf2, w2) \<Rightarrow> Returns (Some rf2) w2
             | (None, w2) \<Rightarrow> addTemporary w2 n prot dst CanBePrimaryEndpoint)
          else Returns None w1)"

section \<open>Inbound dispatch\<close>

text \<open>
  Modelled from the spec: of \<open>buffer.VectorisedView\<close> (package buffer is not among the
  sources) the file uses the first view, nil when there is none, and the removal of the
  first view.
\<close>

definition First :: "VectorisedView \<Rightarrow> View" where
  "First vv = (case vv of [] \<Rightarrow> [] | v # vs \<Rightarrow> v)"

definition RemoveFirst :: "VectorisedView \<Rightarrow> VectorisedView" where
  "RemoveFirst vv = (case vv of [] \<Rightarrow> [] | v # vs \<Rightarrow> vs)"

definition upd_stats :: "world \<Rightarrow> (Stats \<Rightarrow> Stats) \<Rightarrow> world" where
  "upd_stats w f = w\<lparr>stats := f (stats w)\<rparr>"

definition inc_UnknownProtocolRcvdPackets :: "world \<Rightarrow> world" where
  "inc_UnknownProtocolRcvdPackets w =
     upd_stats w (\<lambda>S. S\<lparr>UnknownProtocolRcvdPackets := UnknownProtocolRcvdPackets S + 1\<rparr>)"

definition inc_MalformedRcvdPackets :: "world \<Rightarrow> world" where
  "inc_MalformedRcvdPackets w =
     upd_stats w (\<lambda>S. S\<lparr>MalformedRcvdPackets := MalformedRcvdPackets S + 1\<rparr>)"

definition inc_IP_PacketsReceived :: "world \<Rightarrow> world" where
  "inc_IP_PacketsReceived w =
     upd_stats w (\<lambda>S. S\<lparr>IP_PacketsReceived := IP_PacketsReceived S + 1\<rparr>)"

definition inc_IP_InvalidAddressesReceived :: "world \<Rightarrow> world" where
  "inc_IP_InvalidAddressesReceived w =
     upd_stats w (\<lambda>S. S\<lparr>IP_InvalidAddressesReceived := IP_InvalidAddressesReceived S + 1\<rparr>)"

text \<open>
  Lines 472 to 489: the branch taken once the stack has found a route.  The target
  interface is the one of the route's binding; the packet goes to a live endpoint of
  the destination there or out of the target interface's link endpoint.
\<close>

definition forwardPacket ::
  "world \<Rightarrow> Route \<Rightarrow> Address \<Rightarrow> NetworkProtocolNumber \<Rightarrow> VectorisedView \<Rightarrow> unit outcome" where
  "forwardPacket w r dst prot vv =
     (let n' = nic (heap w (route_ref r)) in
      case lookupRef w n' dst of
        (Some rf, w1) \<Rightarrow> decRef (emit w1 (EvHandlePacket rf r vv)) rf
      | (None, w1) \<Rightarrow>
          Returns () (emit w1 (EvWritePacket n' r (First vv) (RemoveFirst vv) prot)))"

text \<open>\<open>defer r.Release()\<close> runs when the function returns and when it panics.\<close>

definition deferRelease :: "Route \<Rightarrow> unit outcome \<Rightarrow> unit outcome" where
  "deferRelease r res =
     (case res of
        Panics p w \<Rightarrow> Panics p (emit w (EvRelease r))
      | Returns u w \<Rightarrow> Returns u (emit w (EvRelease r)))"

text \<open>Lines 439 to 441: a packet of the IPv4 or IPv6 protocol is counted as received.\<close>

definition countIPPacket :: "NetworkProtocol \<Rightarrow> world \<Rightarrow> world" where
  "countIPPacket netProto w =
     (if Number netProto = IPv4ProtocolNumber \<or> Number netProto = IPv6ProtocolNumber
      then inc_IP_PacketsReceived w else w)"

definition DeliverNetworkPacket ::
  "world \<Rightarrow> nicptr \<Rightarrow> LinkEndpoint \<Rightarrow> LinkAddress \<Rightarrow> LinkAddress \<Rightarrow> NetworkProtocolNumber
     \<Rightarrow> VectorisedView \<Rightarrow> unit outcome" where
  "DeliverNetworkPacket w n lep remoteLinkAddr localLinkAddr prot vv =
     (case networkProtocols (stack w) prot of
        None \<Rightarrow> Returns () (inc_UnknownProtocolRcvdPackets w)
      | Some netProto \<Rightarrow>
          let w0 = countIPPacket netProto w in
          if int (length (First vv)) < MinimumPacketSize netProto
          then Returns () (inc_MalformedRcvdPackets w0)
          else
            (case ParseAddresses netProto (First vv) of
               (src, dst) \<Rightarrow>
                 (case getRef w0 n prot dst of
                    Panics p w1 \<Rightarrow> Panics p w1
                  | Returns (Some rf) w1 \<Rightarrow>
                      let r = (makeRoute prot dst src (LinkAddress lep) rf)
                                \<lparr>RemoteLinkAddress := remoteLinkAddr\<rparr>
                      in decRef (emit w1 (EvHandlePacket rf r vv)) rf
                  | Returns None w1 \<Rightarrow>
                      if Forwarding (stack w1) then
                        (case FindRoute (stack w1) 0 [] dst prot of
                           Inl err \<Rightarrow> Returns () (inc_IP_InvalidAddressesReceived w1)
                         | Inr r0 \<Rightarrow>
                             let r = r0\<lparr>LocalLinkAddress := LinkAddress (linkEP (nics w1 n)),
                                        RemoteLinkAddress := remoteLinkAddr\<rparr>
                             in deferRelease r (forwardPacket w1 r dst prot vv))
                      else Returns () (inc_IP_InvalidAddressesReceived w1))))"

text \<open>
  Lines 565 to 583: the chain of \<open>DeliverTransportPacket\<close>.  Each stage is a call out
  of the file, recorded as an event, whose answer decides whether the next one runs.
\<close>

definition unknownDestination ::
  "world \<Rightarrow> TransportProtocol \<Rightarrow> Route \<Rightarrow> TransportEndpointID \<Rightarrow> VectorisedView \<Rightarrow> world" where
  "unknownDestination w transProto r ident vv =
     (let w1 = emit w (EvUnknownDestination r ident vv) in
      if \<not> HandleUnknownDestinationPacket transProto r ident vv
      then inc_MalformedRcvdPackets w1 else w1)"

definition DeliverTransportPacket ::
  "world \<Rightarrow> nicptr \<Rightarrow> Route \<Rightarrow> TransportProtocolNumber \<Rightarrow> VectorisedView \<Rightarrow> world" where
  "DeliverTransportPacket w n r prot vv =
     (case transportProtocols (stack w) prot of
        None \<Rightarrow> inc_UnknownProtocolRcvdPackets w
      | Some state \<Rightarrow>
          let transProto = proto state in
          if int (length (First vv)) < tp_MinimumPacketSize transProto
          then inc_MalformedRcvdPackets w
          else
            (case ParsePorts transProto (First vv) of
               Inl err \<Rightarrow> inc_MalformedRcvdPackets w
             | Inr (srcPort, dstPort) \<Rightarrow>
                 let ident = TransportEndpointID dstPort (LocalAddress r) srcPort (RemoteAddress r);
                     w1 = emit w (EvNicDemux n r prot vv ident)
                 in
                 if deliverPacket (demux (nics w n)) r prot vv ident then w1
                 else
                   let w2 = emit w1 (EvStackDemux r prot vv ident) in
                   if deliverPacket (stack_demux (stack w)) r prot vv ident then w2
                   else
                     (case defaultHandler state of
                        None \<Rightarrow> unknownDestination w2 transProto r ident vv
                      | Some h \<Rightarrow>
                          let w3 = emit w2 (EvDefaultHandler r ident vv) in
                          if h r ident vv then w3
                          else unknownDestination w3 transProto r ident vv)))"

text \<open>
  \<open>DeliverTransportControlPacket\<close>: eight bytes suffice, the two demultiplexers are
  asked in turn, and nothing is counted.
\<close>

definition DeliverTransportControlPacket ::
  "world \<Rightarrow> nicptr \<Rightarrow> Address \<Rightarrow> Address \<Rightarrow> NetworkProtocolNumber
     \<Rightarrow> TransportProtocolNumber \<Rightarrow> ControlType \<Rightarrow> 32 word \<Rightarrow> VectorisedView \<Rightarrow> world" where
  "DeliverTransportControlPacket w n localAddr remoteAddr net tprot typ extra vv =
     (case transportProtocols (stack w) tprot of
        None \<Rightarrow> w
      | Some state \<Rightarrow>
          if length (First vv) < 8 then w
          else
            (case ParsePorts (proto state) (First vv) of
               Inl err \<Rightarrow> w
             | Inr (srcPort, dstPort) \<Rightarrow>
                 let ident = TransportEndpointID srcPort localAddr dstPort remoteAddr;
                     w1 = emit w (EvNicControl n net tprot typ extra vv ident)
                 in
                 if deliverControlPacket (demux (nics w n)) net tprot typ extra vv ident then w1
                 else emit w1 (EvStackControl net tprot typ extra vv ident)))"

section \<open>Derived notions used by the statements\<close>

text \<open>A binding is registered when the registry of its interface maps its id to it.\<close>

definition registered :: "world \<Rightarrow> refptr \<Rightarrow> bool" where
  "registered w r \<longleftrightarrow>
     endpoints (nics w (nic (heap w r))) (ep_ID (ep (heap w r))) = Some r"

text \<open>How often the endpoint of a binding has been closed.\<close>

definition closes :: "world \<Rightarrow> refptr \<Rightarrow> nat" where
  "closes w r = count_list (trace w) (EvClose r)"

text \<open>The list a binding is linked into, by primacy option (the \<open>switch\<close> of line 275).\<close>

definition primacy_insert ::
  "PrimaryEndpointBehavior \<Rightarrow> refptr list \<Rightarrow> refptr \<Rightarrow> refptr list" where
  "primacy_insert peb l rf =
     (case peb of
        CanBePrimaryEndpoint \<Rightarrow> l @ [rf]
      | FirstPrimaryEndpoint \<Rightarrow> rf # l
      | NeverPrimaryEndpoint \<Rightarrow> l)"

text \<open>
  A binding passes the test \<open>ref.holdsInsertRef && ref.tryIncRef()\<close> when it holds its
  registration bit and its count is not zero.
\<close>

definition live_holder :: "world \<Rightarrow> refptr \<Rightarrow> bool" where
  "live_holder w r \<longleftrightarrow> holdsInsertRef (heap w r) \<and> refs (heap w r) \<noteq> 0"

text \<open>The primacy list of a protocol, empty when the protocol has none.\<close>

definition primary_list :: "NIC \<Rightarrow> NetworkProtocolNumber \<Rightarrow> refptr list" where
  "primary_list N prot = (case primary N prot of None \<Rightarrow> [] | Some l \<Rightarrow> l)"

text \<open>
  The calls of \<open>HandlePacket\<close> in a trace, in order, and the events that are closes.
\<close>

fun is_close :: "event \<Rightarrow> bool" where
  "is_close (EvClose r) = True"
| "is_close e = False"

fun is_handle :: "event \<Rightarrow> bool" where
  "is_handle (EvHandlePacket r rt vv) = True"
| "is_handle e = False"

definition handler_calls :: "world \<Rightarrow> event list" where
  "handler_calls w = filter is_handle (trace w)"

text \<open>
  A step is quiet when it leaves the stack and the counters alone and adds nothing to
  the trace but closes.
\<close>

definition quiet :: "world \<Rightarrow> world \<Rightarrow> bool" where
  "quiet w w' \<longleftrightarrow>
     stack w' = stack w \<and> stats w' = stats w
     \<and> (\<exists>cs. trace w' = trace w @ cs \<and> list_all is_close cs)"

section \<open>A small configuration for concrete runs\<close>

text \<open>
  One network protocol, registered under the IPv4 number, whose endpoints take the
  address they are created for as their id; interfaces as \<open>newNIC\<close> makes them.
\<close>

definition ex_proto :: NetworkProtocol where
  "ex_proto =
     \<lparr>Number = IPv4ProtocolNumber, MinimumPacketSize = 20,
      ParseAddresses = (\<lambda>v. (take 4 (drop 12 v), take 4 (drop 16 v))),
      NewEndpoint = (\<lambda>i a. Inr \<lparr>ep_ID = a\<rparr>)\<rparr>"

definition ex_stack :: Stack where
  "ex_stack =
     \<lparr>networkProtocols = [IPv4ProtocolNumber \<mapsto> ex_proto],
      transportProtocols = Map.empty, linkAddrResolvers = {}, Forwarding = False,
      stack_demux = \<lparr>deliverPacket = (\<lambda>r p vv i. False),
                       deliverControlPacket = (\<lambda>np tp t x vv i. False)\<rparr>,
      FindRoute = (\<lambda>i l d p. Inl ErrNoRoute), CapabilityResolutionRequired = 2\<rparr>"

definition ex_world :: world where
  "ex_world =
     \<lparr>stack = ex_stack,
      nics = (\<lambda>n. newNIC (of_nat n) \<lparr>LinkAddress = [], Capabilities = 0\<rparr>
                     \<lparr>deliverPacket = (\<lambda>r p vv i. False),
                       deliverControlPacket = (\<lambda>np tp t x vv i. False)\<rparr>),
      heap = (\<lambda>r. \<lparr>refs = 0, ep = \<lparr>ep_ID = []\<rparr>, nic = 0, protocol = 0,
                    linkCache = False, holdsInsertRef = False\<rparr>),
      next_ref = 0,
      stats = \<lparr>UnknownProtocolRcvdPackets = 0, MalformedRcvdPackets = 0,
               IP_PacketsReceived = 0, IP_InvalidAddressesReceived = 0\<rparr>,
      trace = []\<rparr>"

definition ex_addr :: Address where
  "ex_addr = [10, 0, 0, 1]"

text \<open>
  A promiscuous interface has resolved \<open>ex_addr\<close> for an inbound frame: binding 0 is
  temporary and its one reference is the borrower's.
\<close>

definition ex_temp :: world where
  "ex_temp = world_of (getRef (setPromiscuousMode ex_world 0 True) 0 IPv4ProtocolNumber ex_addr)"

text \<open>
  The borrower's \<open>decRef\<close> has done its atomic decrement and not yet taken the lock;
  meanwhile a second frame for \<open>ex_addr\<close> is resolved.
\<close>

definition ex_temp_dec :: world where
  "ex_temp_dec = snd (AddInt32_refs ex_temp 0 (- 1))"

definition ex_replaced :: world where
  "ex_replaced = world_of (getRef ex_temp_dec 0 IPv4ProtocolNumber ex_addr)"

text \<open>\<open>ex_addr\<close> bound by \<open>AddAddress\<close>: binding 0 holds its registration bit.\<close>

definition ex_bound :: world where
  "ex_bound = world_of (AddAddress ex_world 0 IPv4ProtocolNumber ex_addr)"

text \<open>On \<open>ex_bound\<close> a borrower has looked \<open>ex_addr\<close> up and holds a reference.\<close>

definition ex_borrowed :: world where
  "ex_borrowed = snd (lookupRef ex_bound 0 ex_addr)"

definition ex_addr2 :: Address where
  "ex_addr2 = [10, 0, 0, 2]"









text \<open>
  A link endpoint and three frames: a 20-byte header whose bytes 12 to 15 are the
  source 10.0.0.9 and bytes 16 to 19 the destination \<open>ex_addr\<close>, followed by a payload
  view; the same for the destination 10.0.0.7, which nothing binds; and a frame of
  three bytes.
\<close>

definition ex_lep :: LinkEndpoint where
  "ex_lep = \<lparr>LinkAddress = [2, 0, 0, 0, 0, 1], Capabilities = 0\<rparr>"

definition ex_hdr :: View where
  "ex_hdr = [69, 0, 0, 24, 0, 0, 0, 0, 64, 17, 0, 0, 10, 0, 0, 9, 10, 0, 0, 1]"

definition ex_frame :: VectorisedView where
  "ex_frame = [ex_hdr, [1, 2, 3, 4]]"

definition ex_hdr_other :: View where
  "ex_hdr_other = [69, 0, 0, 24, 0, 0, 0, 0, 64, 17, 0, 0, 10, 0, 0, 9, 10, 0, 0, 7]"

definition ex_frame_other :: VectorisedView where
  "ex_frame_other = [ex_hdr_other, [1, 2, 3, 4]]"

definition ex_short :: VectorisedView where
  "ex_short = [[1, 2, 3]]"

definition ex_route :: Route where
  "ex_route =
     \<lparr>NetProto = IPv4ProtocolNumber, LocalAddress = ex_addr, RemoteAddress = [10, 0, 0, 9],
      LocalLinkAddress = [2, 0, 0, 0, 0, 1], RemoteLinkAddress = [2, 0, 0, 0, 0, 2],
      route_ref = 0\<rparr>"

text \<open>
  A stack with forwarding on whose routes all go through binding 0, and a world where
  binding 0 is \<open>ex_addr2\<close> bound on interface 1; frames arrive on interface 0.
  \<open>ex_frame2\<close> is addressed to \<open>ex_addr2\<close>.
\<close>

definition ex_fwd_stack :: Stack where
  "ex_fwd_stack =
     ex_stack\<lparr>Forwarding := True,
              FindRoute := (\<lambda>i l d p.
                Inr \<lparr>NetProto = p, LocalAddress = ex_addr2, RemoteAddress = d,
                     LocalLinkAddress = [], RemoteLinkAddress = [], route_ref = 0\<rparr>)\<rparr>"

definition ex_fwd :: world where
  "ex_fwd = world_of (AddAddress (ex_world\<lparr>stack := ex_fwd_stack\<rparr>) 1 IPv4ProtocolNumber ex_addr2)"

definition ex_hdr2 :: View where
  "ex_hdr2 = [69, 0, 0, 24, 0, 0, 0, 0, 64, 17, 0, 0, 10, 0, 0, 9, 10, 0, 0, 2]"

definition ex_frame2 :: VectorisedView where
  "ex_frame2 = [ex_hdr2, [1, 2, 3, 4]]"

definition ex_fwd_route :: "Address \<Rightarrow> Route" where
  "ex_fwd_route d =
     \<lparr>NetProto = IPv4ProtocolNumber, LocalAddress = ex_addr2, RemoteAddress = d,
      LocalLinkAddress = [], RemoteLinkAddress = [2, 0, 0, 0, 0, 2], route_ref = 0\<rparr>"

text \<open>Forwarding on and no route to anywhere.\<close>

definition ex_noroute :: world where
  "ex_noroute = ex_world\<lparr>stack := ex_stack\<lparr>Forwarding := True\<rparr>\<rparr>"

text \<open>
  The spec's wording of the transport chain, for comparison with
  \<open>DeliverTransportPacket\<close>: the stages are tried in order up to and including the first
  one that reports handled; the result is the stages tried and whether one handled.
\<close>

fun spec_chain :: "(event \<times> bool) list \<Rightarrow> event list \<times> bool" where
  "spec_chain [] = ([], False)"
| "spec_chain ((e, handled) # stages) =
     (if handled then ([e], True)
      else (e # fst (spec_chain stages), snd (spec_chain stages)))"

text \<open>
  The four stages for a packet with the given transport id, with the answer each call
  gives: the interface's demultiplexer, the stack's demultiplexer, the protocol's
  default handler when it has one, and the protocol's unknown-destination handler.
\<close>

definition transport_stages ::
  "world \<Rightarrow> nicptr \<Rightarrow> transportProtocolState \<Rightarrow> Route \<Rightarrow> TransportProtocolNumber
     \<Rightarrow> VectorisedView \<Rightarrow> TransportEndpointID \<Rightarrow> (event \<times> bool) list" where
  "transport_stages w n state r prot vv ident =
     [(EvNicDemux n r prot vv ident, deliverPacket (demux (nics w n)) r prot vv ident),
      (EvStackDemux r prot vv ident, deliverPacket (stack_demux (stack w)) r prot vv ident)]
     @ (case defaultHandler state of
          None \<Rightarrow> []
        | Some h \<Rightarrow> [(EvDefaultHandler r ident vv, h r ident vv)])
     @ [(EvUnknownDestination r ident vv,
         HandleUnknownDestinationPacket (proto state) r ident vv)]"

text \<open>
  A transport protocol with eight-byte minimum whose ports are the first four bytes,
  registered under number 17 with no default handler and an unknown-destination
  handler that declines; \<open>ex_handles\<close> is a demultiplexer that takes everything.
\<close>

definition ex_tproto :: TransportProtocol where
  "ex_tproto =
     \<lparr>tp_MinimumPacketSize = 8,
      ParsePorts = (\<lambda>v. Inr (word_of_nat (unat (v ! 0) * 256 + unat (v ! 1)),
                             word_of_nat (unat (v ! 2) * 256 + unat (v ! 3)))),
      HandleUnknownDestinationPacket = (\<lambda>r i vv. False)\<rparr>"

definition ex_tstack :: Stack where
  "ex_tstack =
     ex_stack\<lparr>transportProtocols := [17 \<mapsto> \<lparr>proto = ex_tproto, defaultHandler = None\<rparr>]\<rparr>"

definition ex_tworld :: world where
  "ex_tworld = ex_world\<lparr>stack := ex_tstack\<rparr>"

definition ex_handles :: transportDemuxer where
  "ex_handles =
     \<lparr>deliverPacket = (\<lambda>r p vv i. True),
      deliverControlPacket = (\<lambda>np tp t x vv i. True)\<rparr>"

definition ex_tlocal :: world where
  "ex_tlocal = upd_nic ex_tworld 0 (\<lambda>N. N\<lparr>demux := ex_handles\<rparr>)"

definition ex_segment :: VectorisedView where
  "ex_segment = [[0, 53, 0, 80, 0, 12, 0, 0], [1, 2, 3, 4]]"

definition ex_tid :: TransportEndpointID where
  "ex_tid = TransportEndpointID 80 ex_addr 53 [10, 0, 0, 9]"

section \<open>Runs of interface operations\<close>

text \<open>
  The operations of the file as steps on the world: the exported and the internal
  entry points, each atomic (the ones that only read leave the world as it is), and
  the three operations on a binding's count, with
  \<open>decRef\<close> also split into its atomic decrement and its cleanup so that other steps
  can come between them.  What an operation returns to its caller is dropped; later
  steps may name any binding.
\<close>

datatype nic_op =
  OpSetPromiscuousMode nicptr bool
  | OpSetSpoofing nicptr bool
  | OpGetMainNICAddress nicptr NetworkProtocolNumber "NetworkEndpointID list"
  | OpPrimaryEndpoint nicptr NetworkProtocolNumber
  | OpFindEndpoint nicptr NetworkProtocolNumber Address PrimaryEndpointBehavior
  | OpAddAddressLocked nicptr NetworkProtocolNumber Address PrimaryEndpointBehavior bool
  | OpAddAddress nicptr NetworkProtocolNumber Address
  | OpAddAddressWithOptions nicptr NetworkProtocolNumber Address PrimaryEndpointBehavior
  | OpAddSubnet nicptr NetworkProtocolNumber Subnet
  | OpRemoveSubnet nicptr Subnet
  | OpRemoveAddress nicptr Address
  | OpGetRef nicptr NetworkProtocolNumber Address
  | OpDeliverNetworkPacket nicptr LinkEndpoint LinkAddress LinkAddress NetworkProtocolNumber
      VectorisedView
  | OpDeliverTransportPacket nicptr Route TransportProtocolNumber VectorisedView
  | OpDeliverTransportControlPacket nicptr Address Address NetworkProtocolNumber
      TransportProtocolNumber ControlType "32 word" VectorisedView
  | OpSubnets nicptr "NetworkEndpointID list"
  | OpContainsSubnet nicptr "NetworkEndpointID list" Subnet
  | OpAddresses nicptr "NetworkEndpointID list"
  | OpIsPromiscuousMode nicptr
  | OpIncRef refptr
  | OpTryIncRef refptr
  | OpDecRef refptr
  | OpAtomicDecrement refptr
  | OpRemoveEndpoint refptr
  | OpRemoveEndpointLocked nicptr refptr

fun forget :: "'a outcome \<Rightarrow> unit outcome" where
  "forget (Panics p w) = Panics p w"
| "forget (Returns x w) = Returns () w"

fun step :: "world \<Rightarrow> nic_op \<Rightarrow> unit outcome" where
  "step w (OpSetPromiscuousMode n b) = Returns () (setPromiscuousMode w n b)"
| "step w (OpSetSpoofing n b) = Returns () (setSpoofing w n b)"
| "step w (OpGetMainNICAddress n prot ks) = forget (getMainNICAddress w n prot ks)"
| "step w (OpPrimaryEndpoint n prot) = Returns () (snd (primaryEndpoint w n prot))"
| "step w (OpFindEndpoint n prot a peb) = forget (findEndpoint w n prot a peb)"
| "step w (OpAddAddressLocked n prot a peb replace) =
     forget (addAddressLocked w n prot a peb replace)"
| "step w (OpAddAddress n prot a) = forget (AddAddress w n prot a)"
| "step w (OpAddAddressWithOptions n prot a peb) = forget (AddAddressWithOptions w n prot a peb)"
| "step w (OpAddSubnet n prot sn) = Returns () (AddSubnet w n prot sn)"
| "step w (OpRemoveSubnet n sn) = Returns () (RemoveSubnet w n sn)"
| "step w (OpRemoveAddress n a) = forget (RemoveAddress w n a)"
| "step w (OpGetRef n prot a) = forget (getRef w n prot a)"
| "step w (OpDeliverNetworkPacket n lep rl ll prot vv) =
     DeliverNetworkPacket w n lep rl ll prot vv"
| "step w (OpDeliverTransportPacket n r prot vv) = Returns () (DeliverTransportPacket w n r prot vv)"
| "step w (OpDeliverTransportControlPacket n localAddr remoteAddr net tprot typ extra vv) =
     Returns () (DeliverTransportControlPacket w n localAddr remoteAddr net tprot typ extra vv)"
| "step w (OpSubnets n ks) = forget (Subnets w n ks)"
| "step w (OpContainsSubnet n ks sn) = forget (ContainsSubnet w n ks sn)"
| "step w (OpAddresses n ks) = Returns () w"
| "step w (OpIsPromiscuousMode n) = Returns () w"
| "step w (OpIncRef r) = Returns () (incRef w r)"
| "step w (OpTryIncRef r) = Returns () (snd (tryIncRef w r))"
| "step w (OpDecRef r) = decRef w r"
| "step w (OpAtomicDecrement r) = Returns () (snd (AddInt32_refs w r (- 1)))"
| "step w (OpRemoveEndpoint r) = removeEndpoint w r"
| "step w (OpRemoveEndpointLocked n r) = removeEndpointLocked w n r"

text \<open>A run stops at the first panic.\<close>

fun run :: "world \<Rightarrow> nic_op list \<Rightarrow> unit outcome" where
  "run w [] = Returns () w"
| "run w (x # xs) =
     (case step w x of
        Panics p w' \<Rightarrow> Panics p w'
      | Returns u w' \<Rightarrow> run w' xs)"

text \<open>A world whose interfaces are all as \<open>newNIC\<close> makes them.\<close>

definition initial :: "world \<Rightarrow> bool" where
  "initial w \<longleftrightarrow> (\<forall>n. \<exists>i lep dm. nics w n = newNIC i lep dm)"

text \<open>
  A binding is listed on an interface when some primacy list of the interface holds
  it.  The invariant of the data model: what is listed on an interface is in the
  interface's registry.
\<close>

definition listed_on :: "world \<Rightarrow> nicptr \<Rightarrow> refptr \<Rightarrow> bool" where
  "listed_on w n r \<longleftrightarrow> (\<exists>prot l. primary (nics w n) prot = Some l \<and> r \<in> set l)"

definition primacy_in_registry :: "world \<Rightarrow> bool" where
  "primacy_in_registry w \<longleftrightarrow> (\<forall>n r. listed_on w n r \<longrightarrow> r \<in> ran (endpoints (nics w n)))"

text \<open>
  The invariant the operations maintain step by step: a binding in the list of a
  protocol on an interface has been allocated, belongs to that interface and that
  protocol, and is what the interface's registry holds under the binding's id.
\<close>

definition lists_wf :: "world \<Rightarrow> bool" where
  "lists_wf w \<longleftrightarrow>
     (\<forall>n prot l r. primary (nics w n) prot = Some l \<longrightarrow> r \<in> set l \<longrightarrow>
        r < next_ref w \<and> nic (heap w r) = n \<and> protocol (heap w r) = prot
        \<and> endpoints (nics w n) (ep_ID (ep (heap w r))) = Some r)"

text \<open>
  The part of the world the invariant reads: lists and registries, the fields of the
  bindings that never change, and the allocation mark.
\<close>

definition shape ::
  "world \<Rightarrow> (nicptr \<Rightarrow> (NetworkProtocolNumber \<rightharpoonup> refptr list) \<times> (NetworkEndpointID \<rightharpoonup> refptr))
     \<times> (refptr \<Rightarrow> NetworkEndpoint \<times> nicptr \<times> NetworkProtocolNumber) \<times> refptr" where
  "shape w =
     ((\<lambda>n. (primary (nics w n), endpoints (nics w n))),
      (\<lambda>r. (ep (heap w r), nic (heap w r), protocol (heap w r))),
      next_ref w)"

text \<open>
  The invariant behind closing at most once: a registered binding has been allocated,
  is registered under its own id on its own interface and has never been closed; no
  binding has been closed twice; nothing beyond the allocation mark has been closed.
\<close>

definition closes_wf :: "world \<Rightarrow> bool" where
  "closes_wf w \<longleftrightarrow>
     (\<forall>n k r. endpoints (nics w n) k = Some r \<longrightarrow>
        r < next_ref w \<and> k = ep_ID (ep (heap w r)) \<and> nic (heap w r) = n \<and> closes w r = 0)
     \<and> (\<forall>r. closes w r \<le> 1)
     \<and> (\<forall>r. next_ref w \<le> r \<longrightarrow> closes w r = 0)"

text \<open>The part of the world that invariant reads.\<close>

definition cshape ::
  "world \<Rightarrow> ((nicptr \<Rightarrow> (NetworkProtocolNumber \<rightharpoonup> refptr list) \<times> (NetworkEndpointID \<rightharpoonup> refptr))
     \<times> (refptr \<Rightarrow> NetworkEndpoint \<times> nicptr \<times> NetworkProtocolNumber) \<times> refptr)
     \<times> (refptr \<Rightarrow> nat)" where
  "cshape w = (shape w, closes w)"

text \<open>
  A run on \<open>ex_world\<close>: bind \<open>ex_addr\<close>, bind \<open>ex_addr2\<close> as never primary, borrow
  \<open>ex_addr\<close> for a frame, unbind \<open>ex_addr\<close>, release the borrow.
\<close>

definition ex_ops :: "nic_op list" where
  "ex_ops =
     [OpAddAddress 0 IPv4ProtocolNumber ex_addr,
      OpAddAddressWithOptions 0 IPv4ProtocolNumber ex_addr2 NeverPrimaryEndpoint,
      OpGetRef 0 IPv4ProtocolNumber ex_addr,
      OpRemoveAddress 0 ex_addr,
      OpDecRef 0]"

section \<open>State updates\<close>

lemma upd_nic_fields [simp]:
  "stack (upd_nic w n f) = stack w"
  "heap (upd_nic w n f) = heap w"
  "next_ref (upd_nic w n f) = next_ref w"
  "stats (upd_nic w n f) = stats w"
  "trace (upd_nic w n f) = trace w"
  "nics (upd_nic w n f) = (nics w)(n := f (nics w n))"
  by (simp_all add: upd_nic_def)

lemma upd_ref_fields [simp]:
  "stack (upd_ref w r g) = stack w"
  "nics (upd_ref w r g) = nics w"
  "next_ref (upd_ref w r g) = next_ref w"
  "stats (upd_ref w r g) = stats w"
  "trace (upd_ref w r g) = trace w"
  "heap (upd_ref w r g) = (heap w)(r := g (heap w r))"
  by (simp_all add: upd_ref_def)

lemma emit_fields [simp]:
  "stack (emit w e) = stack w"
  "nics (emit w e) = nics w"
  "heap (emit w e) = heap w"
  "next_ref (emit w e) = next_ref w"
  "stats (emit w e) = stats w"
  "trace (emit w e) = trace w @ [e]"
  by (simp_all add: emit_def)

lemma upd_stats_fields [simp]:
  "stack (upd_stats w f) = stack w"
  "nics (upd_stats w f) = nics w"
  "heap (upd_stats w f) = heap w"
  "next_ref (upd_stats w f) = next_ref w"
  "trace (upd_stats w f) = trace w"
  "stats (upd_stats w f) = f (stats w)"
  by (simp_all add: upd_stats_def)

section \<open>The reference count and teardown\<close>

lemma AddInt32_refs_fst: "fst (AddInt32_refs w r d) = refs (heap w r) + d"
  by (simp add: AddInt32_refs_def)

lemma AddInt32_refs_snd:
  "snd (AddInt32_refs w r d) = upd_ref w r (\<lambda>R. R\<lparr>refs := refs R + d\<rparr>)"
  by (simp add: AddInt32_refs_def)

lemma decRef_unfold:
  "decRef w r =
     (let w1 = upd_ref w r (\<lambda>R. R\<lparr>refs := refs R - 1\<rparr>) in
      if refs (heap w r) = 1 then removeEndpoint w1 r else Returns () w1)"
  by (simp add: decRef_def AddInt32_refs_def Let_def)

lemma removeEndpointLocked_not_registered:
  "endpoints (nics w n) (ep_ID (ep (heap w r))) \<noteq> Some r \<Longrightarrow>
   removeEndpointLocked w n r = Returns () w"
  by (simp add: removeEndpointLocked_def Let_def)

lemma removeEndpointLocked_panics:
  "endpoints (nics w n) (ep_ID (ep (heap w r))) = Some r \<Longrightarrow> holdsInsertRef (heap w r) \<Longrightarrow>
   removeEndpointLocked w n r = Panics RefCountDroppedBeforeRemoved w"
  by (simp add: removeEndpointLocked_def Let_def)

lemma removeEndpointLocked_teardown:
  assumes "endpoints (nics w n) (ep_ID (ep (heap w r))) = Some r"
    and "\<not> holdsInsertRef (heap w r)"
    and "primary (nics w n) (protocol (heap w r)) = Some l"
  shows "removeEndpointLocked w n r =
     Returns ()
       (emit (upd_nic w n (\<lambda>N. N\<lparr>endpoints := (endpoints N)(ep_ID (ep (heap w r)) := None),
                                  primary := (primary N)(protocol (heap w r) \<mapsto> removeAll r l)\<rparr>))
             (EvClose r))"
  using assms
  by (cases "r \<in> set l")
     (simp_all add: removeEndpointLocked_def Let_def upd_nic_def emit_def fun_upd_idem)

section \<open>Concrete runs\<close>

lemmas ex_defs =
  ex_temp_def ex_temp_dec_def ex_replaced_def ex_bound_def ex_world_def ex_stack_def
  ex_proto_def ex_addr_def getRef_def lookupRef_def addTemporary_def addAddressLocked_def
  registerEndpoint_def setPromiscuousMode_def newNIC_def tryIncRef_def
  removeEndpointLocked_def AddInt32_refs_def PushBack_def PushFront_def AddAddress_def
  AddAddressWithOptions_def removeEndpoint_def registered_def Let_def closes_def

section \<open>What a decrement does\<close>

lemma registered_upd_refs [simp]:
  "registered (upd_ref w r (\<lambda>R. R\<lparr>refs := v R\<rparr>)) r' = registered w r'"
  by (simp add: registered_def)

lemma removeEndpoint_not_registered:
  "\<not> registered w r \<Longrightarrow> removeEndpoint w r = Returns () w"
  by (simp add: removeEndpoint_def registered_def removeEndpointLocked_not_registered)

lemma decRef_no_teardown:
  assumes "\<not> registered w r \<or> refs (heap w r) \<noteq> 1"
  shows "decRef w r = Returns () (upd_ref w r (\<lambda>R. R\<lparr>refs := refs R - 1\<rparr>))"
  using assms
  by (auto simp: decRef_unfold Let_def removeEndpoint_not_registered)

lemma decRef_panics:
  assumes "refs (heap w r) = 1" "registered w r" "holdsInsertRef (heap w r)"
  shows "decRef w r = Panics RefCountDroppedBeforeRemoved (upd_ref w r (\<lambda>R. R\<lparr>refs := 0\<rparr>))"
  using assms
  by (simp add: decRef_unfold Let_def removeEndpoint_def registered_def removeEndpointLocked_panics)

lemma decRef_teardown:
  assumes "refs (heap w r) = 1" "registered w r" "\<not> holdsInsertRef (heap w r)"
    and "primary (nics w (nic (heap w r))) (protocol (heap w r)) = Some l"
  shows "decRef w r =
     Returns ()
       (emit (upd_nic (upd_ref w r (\<lambda>R. R\<lparr>refs := 0\<rparr>)) (nic (heap w r))
                (\<lambda>N. N\<lparr>endpoints := (endpoints N)(ep_ID (ep (heap w r)) := None),
                        primary := (primary N)(protocol (heap w r) \<mapsto> removeAll r l)\<rparr>))
             (EvClose r))"
proof -
  let ?w1 = "upd_ref w r (\<lambda>R. R\<lparr>refs := refs R - 1\<rparr>)"
  have "removeEndpointLocked ?w1 (nic (heap w r)) r =
     Returns ()
       (emit (upd_nic ?w1 (nic (heap w r))
                (\<lambda>N. N\<lparr>endpoints := (endpoints N)(ep_ID (ep (heap ?w1 r)) := None),
                        primary := (primary N)(protocol (heap ?w1 r) \<mapsto> removeAll r l)\<rparr>))
             (EvClose r))"
    using assms by (intro removeEndpointLocked_teardown) (simp_all add: registered_def)
  then show ?thesis
    using assms(1) by (simp add: decRef_unfold Let_def removeEndpoint_def)
qed

section \<open>C2: binding an address that is already bound\<close>

lemma registerEndpoint_fst [simp]: "fst (registerEndpoint w n prot e peb) = next_ref w"
  by (simp add: registerEndpoint_def Let_def)

lemma registerEndpoint_fields [simp]:
  "stack (snd (registerEndpoint w n prot e peb)) = stack w"
  "stats (snd (registerEndpoint w n prot e peb)) = stats w"
  "trace (snd (registerEndpoint w n prot e peb)) = trace w"
  "next_ref (snd (registerEndpoint w n prot e peb)) = Suc (next_ref w)"
  by (simp_all add: registerEndpoint_def Let_def)

lemma registerEndpoint_heap:
  "heap (snd (registerEndpoint w n prot e peb)) =
     (heap w)(next_ref w :=
        \<lparr>refs = 1, ep = e, nic = n, protocol = prot,
         linkCache = (Capabilities (linkEP (nics w n)) AND CapabilityResolutionRequired (stack w) \<noteq> 0
                      \<and> prot \<in> linkAddrResolvers (stack w)),
         holdsInsertRef = True\<rparr>)"
  by (simp add: registerEndpoint_def Let_def)

lemma registerEndpoint_nics:
  "nics (snd (registerEndpoint w n prot e peb)) =
     (nics w)(n := (nics w n)
        \<lparr>endpoints := (endpoints (nics w n))(ep_ID e \<mapsto> next_ref w),
         primary := (primary (nics w n))
           (prot \<mapsto> primacy_insert peb (case primary (nics w n) prot of None \<Rightarrow> [] | Some l \<Rightarrow> l)
                      (next_ref w))\<rparr>)"
  by (cases peb) (simp_all add: registerEndpoint_def Let_def primacy_insert_def PushBack_def PushFront_def)

lemma addAddressLocked_duplicate:
  assumes "networkProtocols (stack w) prot = Some np"
    and "NewEndpoint np (nic_id (nics w n)) addr = Inr e"
    and "endpoints (nics w n) (ep_ID e) = Some old"
  shows "addAddressLocked w n prot addr peb False = Returns (Inl ErrDuplicateAddress) w"
  using assms by (simp add: addAddressLocked_def)

lemma addAddressLocked_replace:
  assumes "networkProtocols (stack w) prot = Some np"
    and "NewEndpoint np (nic_id (nics w n)) addr = Inr e"
    and "endpoints (nics w n) (ep_ID e) = Some old"
  shows "addAddressLocked w n prot addr peb True =
     (case removeEndpointLocked w n old of
        Panics p w' \<Rightarrow> Panics p w'
      | Returns u w' \<Rightarrow> Returns (Inr (next_ref w')) (snd (registerEndpoint w' n prot e peb)))"
  using assms by (simp add: addAddressLocked_def case_prod_beta split: outcome.splits)

lemma lookupRef_live:
  "endpoints (nics w n) a = Some rf \<Longrightarrow> refs (heap w rf) \<noteq> 0 \<Longrightarrow>
   fst (lookupRef w n a) = Some rf"
  by (simp add: lookupRef_def tryIncRef_def Let_def)

text \<open>
  C2, as amended.  When the protocol is registered and its factory yields an endpoint
  under whose id a binding already exists: without replace the call fails with
  \<open>ErrDuplicateAddress\<close> and changes nothing; with replace and the old binding's
  registration bit still set the call panics; with replace and the bit cleared the old
  binding is torn down by \<open>removeEndpointLocked\<close>, the routine every removal ends in
  (one \<open>Close\<close>, the old binding gone from its primacy list), and the fresh binding is
  registered under the id with count one and is what a lookup resolves.
\<close>

theorem addAddressLocked_existing:
  assumes np: "networkProtocols (stack w) prot = Some np"
    and e: "NewEndpoint np (nic_id (nics w n)) addr = Inr e"
    and old: "endpoints (nics w n) (ep_ID e) = Some old"
  shows "(\<not> replace \<longrightarrow>
            addAddressLocked w n prot addr peb replace = Returns (Inl ErrDuplicateAddress) w)
    \<and> (replace \<and> ep_ID (ep (heap w old)) = ep_ID e \<and> holdsInsertRef (heap w old) \<longrightarrow>
            addAddressLocked w n prot addr peb replace = Panics RefCountDroppedBeforeRemoved w)
    \<and> (replace \<and> ep_ID (ep (heap w old)) = ep_ID e \<and> \<not> holdsInsertRef (heap w old)
         \<and> primary (nics w n) (protocol (heap w old)) = Some l \<and> old \<noteq> next_ref w \<longrightarrow>
         (\<exists>w'. addAddressLocked w n prot addr peb replace = Returns (Inr (next_ref w)) w'
            \<and> trace w' = trace w @ [EvClose old]
            \<and> endpoints (nics w' n) (ep_ID e) = Some (next_ref w)
            \<and> refs (heap w' (next_ref w)) = 1
            \<and> holdsInsertRef (heap w' (next_ref w))
            \<and> ep (heap w' (next_ref w)) = e
            \<and> fst (lookupRef w' n (ep_ID e)) = Some (next_ref w)
            \<and> old \<notin> (case primary (nics w' n) (protocol (heap w old)) of
                         None \<Rightarrow> {} | Some l' \<Rightarrow> set l')))"
proof (intro conjI impI)
  assume "\<not> replace"
  then show "addAddressLocked w n prot addr peb replace = Returns (Inl ErrDuplicateAddress) w"
    using addAddressLocked_duplicate [OF np e old] by simp
next
  assume a: "replace \<and> ep_ID (ep (heap w old)) = ep_ID e \<and> holdsInsertRef (heap w old)"
  then have "removeEndpointLocked w n old = Panics RefCountDroppedBeforeRemoved w"
    using old by (intro removeEndpointLocked_panics) simp_all
  then show "addAddressLocked w n prot addr peb replace = Panics RefCountDroppedBeforeRemoved w"
    using a addAddressLocked_replace [OF np e old] by simp
next
  assume a: "replace \<and> ep_ID (ep (heap w old)) = ep_ID e \<and> \<not> holdsInsertRef (heap w old)
         \<and> primary (nics w n) (protocol (heap w old)) = Some l \<and> old \<noteq> next_ref w"
  define w1 where "w1 = emit (upd_nic w n (\<lambda>N. N\<lparr>endpoints := (endpoints N)(ep_ID (ep (heap w old)) := None),
                                  primary := (primary N)(protocol (heap w old) \<mapsto> removeAll old l)\<rparr>))
             (EvClose old)"
  have rm: "removeEndpointLocked w n old = Returns () w1"
    unfolding w1_def using a old by (intro removeEndpointLocked_teardown) simp_all
  let ?w' = "snd (registerEndpoint w1 n prot e peb)"
  have res: "addAddressLocked w n prot addr peb replace = Returns (Inr (next_ref w)) ?w'"
    using a addAddressLocked_replace [OF np e old] rm by (simp add: w1_def)
  have nr: "next_ref w1 = next_ref w" by (simp add: w1_def)
  have "trace ?w' = trace w @ [EvClose old]" by (simp add: w1_def)
  moreover have reg: "endpoints (nics ?w' n) (ep_ID e) = Some (next_ref w)"
    by (simp add: registerEndpoint_nics nr)
  moreover have hp: "heap ?w' (next_ref w) =
        \<lparr>refs = 1, ep = e, nic = n, protocol = prot,
         linkCache = (Capabilities (linkEP (nics w1 n)) AND CapabilityResolutionRequired (stack w1) \<noteq> 0
                      \<and> prot \<in> linkAddrResolvers (stack w1)),
         holdsInsertRef = True\<rparr>"
    by (simp add: registerEndpoint_heap nr)
  moreover have "fst (lookupRef ?w' n (ep_ID e)) = Some (next_ref w)"
    using reg hp by (intro lookupRef_live) simp_all
  moreover have "old \<notin> (case primary (nics ?w' n) (protocol (heap w old)) of
                         None \<Rightarrow> {} | Some l' \<Rightarrow> set l')"
    using a by (cases peb) (auto simp: registerEndpoint_nics nr w1_def primacy_insert_def)
  ultimately show "\<exists>w'. addAddressLocked w n prot addr peb replace = Returns (Inr (next_ref w)) w'
            \<and> trace w' = trace w @ [EvClose old]
            \<and> endpoints (nics w' n) (ep_ID e) = Some (next_ref w)
            \<and> refs (heap w' (next_ref w)) = 1
            \<and> holdsInsertRef (heap w' (next_ref w))
            \<and> ep (heap w' (next_ref w)) = e
            \<and> fst (lookupRef w' n (ep_ID e)) = Some (next_ref w)
            \<and> old \<notin> (case primary (nics w' n) (protocol (heap w old)) of
                         None \<Rightarrow> {} | Some l' \<Rightarrow> set l')"
    using res by simp
qed

text \<open>
  Witness for C2: binding \<open>ex_addr\<close> a second time on \<open>ex_bound\<close> without replace is a
  duplicate and with replace panics; on \<open>ex_temp_dec\<close>, where binding 0 is dead and
  holds no registration bit, replace closes it and registers binding 1.
\<close>

theorem addAddressLocked_existing_witness:
  "addAddressLocked ex_bound 0 IPv4ProtocolNumber ex_addr CanBePrimaryEndpoint False
     = Returns (Inl ErrDuplicateAddress) ex_bound
   \<and> addAddressLocked ex_bound 0 IPv4ProtocolNumber ex_addr CanBePrimaryEndpoint True
     = Panics RefCountDroppedBeforeRemoved ex_bound
   \<and> (\<exists>w'. addAddressLocked ex_temp_dec 0 IPv4ProtocolNumber ex_addr CanBePrimaryEndpoint True
              = Returns (Inr 1) w'
         \<and> trace w' = [EvClose 0]
         \<and> endpoints (nics w' 0) ex_addr = Some 1
         \<and> fst (lookupRef w' 0 ex_addr) = Some 1)"
proof -
  have np: "networkProtocols (stack ex_bound) IPv4ProtocolNumber = Some ex_proto"
    "networkProtocols (stack ex_temp_dec) IPv4ProtocolNumber = Some ex_proto"
    by (simp_all add: ex_defs)
  have e: "NewEndpoint ex_proto (nic_id (nics ex_bound 0)) ex_addr = Inr \<lparr>ep_ID = ex_addr\<rparr>"
    "NewEndpoint ex_proto (nic_id (nics ex_temp_dec 0)) ex_addr = Inr \<lparr>ep_ID = ex_addr\<rparr>"
    by (simp_all add: ex_proto_def)
  have old: "endpoints (nics ex_bound 0) (ep_ID \<lparr>ep_ID = ex_addr\<rparr>) = Some 0"
    "endpoints (nics ex_temp_dec 0) (ep_ID \<lparr>ep_ID = ex_addr\<rparr>) = Some 0"
    by (simp_all add: ex_defs)
  have b: "ep_ID (ep (heap ex_bound 0)) = ex_addr" "holdsInsertRef (heap ex_bound 0)"
    by (simp_all add: ex_defs)
  have t: "ep_ID (ep (heap ex_temp_dec 0)) = ex_addr" "\<not> holdsInsertRef (heap ex_temp_dec 0)"
    "primary (nics ex_temp_dec 0) (protocol (heap ex_temp_dec 0)) = Some [0]"
    "next_ref ex_temp_dec = 1" "trace ex_temp_dec = []"
    by (simp_all add: ex_defs)
  show ?thesis
    using addAddressLocked_existing
        [OF np(1) e(1) old(1), where replace = False and peb = CanBePrimaryEndpoint and l = "[]"]
      addAddressLocked_existing
        [OF np(1) e(1) old(1), where replace = True and peb = CanBePrimaryEndpoint and l = "[]"]
      addAddressLocked_existing
        [OF np(2) e(2) old(2), where replace = True and peb = CanBePrimaryEndpoint and l = "[0]"]
      b t
    by auto
qed

text \<open>
  Counterexample to C2 as stated: \<open>ex_addr\<close> is bound on \<open>ex_bound\<close> by \<open>AddAddress\<close>;
  binding it again with replace allowed does not tear the old binding down and
  register a new one, it panics.
\<close>

theorem addAddressLocked_replace_counterexample:
  "endpoints (nics ex_bound 0) ex_addr = Some 0
   \<and> addAddressLocked ex_bound 0 IPv4ProtocolNumber ex_addr CanBePrimaryEndpoint True
       = Panics RefCountDroppedBeforeRemoved ex_bound"
proof -
  have "endpoints (nics ex_bound 0) ex_addr = Some 0"
    by (simp add: ex_defs)
  moreover have "removeEndpointLocked ex_bound 0 0 = Panics RefCountDroppedBeforeRemoved ex_bound"
    by (rule removeEndpointLocked_panics) (simp_all add: ex_defs)
  moreover have "networkProtocols (stack ex_bound) IPv4ProtocolNumber = Some ex_proto"
    by (simp add: ex_defs)
  ultimately show ?thesis
    by (simp add: addAddressLocked_def ex_proto_def)
qed

section \<open>C3: unbinding an address\<close>

lemma RemoveAddress_bad:
  "\<not> (\<exists>r. endpoints (nics w n) addr = Some r \<and> holdsInsertRef (heap w r)) \<Longrightarrow>
   RemoveAddress w n addr = Returns (Some ErrBadLocalAddress) w"
  by (auto simp: RemoveAddress_def split: option.splits)

lemma RemoveAddress_holder:
  "endpoints (nics w n) addr = Some r \<Longrightarrow> holdsInsertRef (heap w r) \<Longrightarrow>
   RemoveAddress w n addr =
     (case decRef (upd_ref w r (\<lambda>R. R\<lparr>holdsInsertRef := False\<rparr>)) r of
        Panics p w' \<Rightarrow> Panics p w'
      | Returns u w' \<Rightarrow> Returns None w')"
  by (simp add: RemoveAddress_def)

lemma RemoveAddress_bad_iff:
  "(\<exists>w'. RemoveAddress w n addr = Returns (Some ErrBadLocalAddress) w')
     \<longleftrightarrow> \<not> (\<exists>r. endpoints (nics w n) addr = Some r \<and> holdsInsertRef (heap w r))"
proof
  assume "\<exists>w'. RemoveAddress w n addr = Returns (Some ErrBadLocalAddress) w'"
  then show "\<not> (\<exists>r. endpoints (nics w n) addr = Some r \<and> holdsInsertRef (heap w r))"
    by (auto simp: RemoveAddress_holder split: outcome.splits)
next
  assume "\<not> (\<exists>r. endpoints (nics w n) addr = Some r \<and> holdsInsertRef (heap w r))"
  then show "\<exists>w'. RemoveAddress w n addr = Returns (Some ErrBadLocalAddress) w'"
    by (simp add: RemoveAddress_bad)
qed

text \<open>
  C3.  \<open>RemoveAddress\<close> fails with \<open>ErrBadLocalAddress\<close> exactly when the registry has
  no binding for the address that holds its registration bit.  Otherwise, for a
  binding registered on this interface under that address, it clears the bit and
  releases one reference: with a count of one (no borrower) the entry is deleted and
  the endpoint closed inside the call; with a larger count nothing is closed and the
  binding stays registered with the bit cleared, and when the count was two (one
  borrower) that borrower's \<open>decRef\<close> closes the endpoint.
\<close>

theorem RemoveAddress_unbinds:
  "((\<exists>w'. RemoveAddress w n addr = Returns (Some ErrBadLocalAddress) w')
       \<longleftrightarrow> \<not> (\<exists>r. endpoints (nics w n) addr = Some r \<and> holdsInsertRef (heap w r)))
   \<and> (endpoints (nics w n) addr = Some r \<and> holdsInsertRef (heap w r)
        \<and> ep_ID (ep (heap w r)) = addr \<and> nic (heap w r) = n
        \<and> primary (nics w n) (protocol (heap w r)) = Some l \<longrightarrow>
        (if refs (heap w r) = 1
         then \<exists>w'. RemoveAddress w n addr = Returns None w'
                \<and> trace w' = trace w @ [EvClose r]
                \<and> endpoints (nics w' n) addr = None
                \<and> \<not> holdsInsertRef (heap w' r) \<and> refs (heap w' r) = 0
         else \<exists>w'. RemoveAddress w n addr = Returns None w'
                \<and> trace w' = trace w
                \<and> endpoints (nics w' n) addr = Some r
                \<and> \<not> holdsInsertRef (heap w' r) \<and> refs (heap w' r) = refs (heap w r) - 1
                \<and> (refs (heap w r) = 2 \<longrightarrow>
                     (\<exists>w''. decRef w' r = Returns () w''
                        \<and> trace w'' = trace w @ [EvClose r]
                        \<and> endpoints (nics w'' n) addr = None))))"
proof (intro conjI impI)
  show "(\<exists>w'. RemoveAddress w n addr = Returns (Some ErrBadLocalAddress) w')
       \<longleftrightarrow> \<not> (\<exists>r. endpoints (nics w n) addr = Some r \<and> holdsInsertRef (heap w r))"
    by (rule RemoveAddress_bad_iff)
next
  assume a: "endpoints (nics w n) addr = Some r \<and> holdsInsertRef (heap w r)
        \<and> ep_ID (ep (heap w r)) = addr \<and> nic (heap w r) = n
        \<and> primary (nics w n) (protocol (heap w r)) = Some l"
  let ?w0 = "upd_ref w r (\<lambda>R. R\<lparr>holdsInsertRef := False\<rparr>)"
  have ra: "RemoveAddress w n addr =
     (case decRef ?w0 r of Panics p w' \<Rightarrow> Panics p w' | Returns u w' \<Rightarrow> Returns None w')"
    using a by (simp add: RemoveAddress_holder)
  have reg0: "registered ?w0 r" "\<not> holdsInsertRef (heap ?w0 r)"
    "primary (nics ?w0 (nic (heap ?w0 r))) (protocol (heap ?w0 r)) = Some l"
    using a by (simp_all add: registered_def)
  show "if refs (heap w r) = 1
         then \<exists>w'. RemoveAddress w n addr = Returns None w'
                \<and> trace w' = trace w @ [EvClose r]
                \<and> endpoints (nics w' n) addr = None
                \<and> \<not> holdsInsertRef (heap w' r) \<and> refs (heap w' r) = 0
         else \<exists>w'. RemoveAddress w n addr = Returns None w'
                \<and> trace w' = trace w
                \<and> endpoints (nics w' n) addr = Some r
                \<and> \<not> holdsInsertRef (heap w' r) \<and> refs (heap w' r) = refs (heap w r) - 1
                \<and> (refs (heap w r) = 2 \<longrightarrow>
                     (\<exists>w''. decRef w' r = Returns () w''
                        \<and> trace w'' = trace w @ [EvClose r]
                        \<and> endpoints (nics w'' n) addr = None))"
  proof (cases "refs (heap w r) = 1")
    case True
    then have "refs (heap ?w0 r) = 1" by simp
    from decRef_teardown [OF this reg0] True a show ?thesis
      by (simp add: ra)
  next
    case False
    then have nz: "\<not> registered ?w0 r \<or> refs (heap ?w0 r) \<noteq> 1" by simp
    let ?w1 = "upd_ref ?w0 r (\<lambda>R. R\<lparr>refs := refs R - 1\<rparr>)"
    have d1: "decRef ?w0 r = Returns () ?w1"
      by (rule decRef_no_teardown [OF nz])
    have later: "\<exists>w''. decRef ?w1 r = Returns () w''
                        \<and> trace w'' = trace w @ [EvClose r]
                        \<and> endpoints (nics w'' n) addr = None"
      if two: "refs (heap w r) = 2"
    proof -
      have "refs (heap ?w1 r) = 1" using two by simp
      moreover have "registered ?w1 r" "\<not> holdsInsertRef (heap ?w1 r)"
        "primary (nics ?w1 (nic (heap ?w1 r))) (protocol (heap ?w1 r)) = Some l"
        using a by (simp_all add: registered_def)
      ultimately show ?thesis
        using a by (simp add: decRef_teardown)
    qed
    show ?thesis
      using False a later by (simp add: ra d1)
  qed
qed

text \<open>
  Witness for C3: nothing is bound on \<open>ex_world\<close>; on \<open>ex_bound\<close> the unbind closes
  binding 0 at once; on \<open>ex_borrowed\<close> it closes nothing and the borrower's release
  does.
\<close>

theorem RemoveAddress_unbinds_witness:
  "(\<exists>w'. RemoveAddress ex_world 0 ex_addr = Returns (Some ErrBadLocalAddress) w')
   \<and> (\<exists>w'. RemoveAddress ex_bound 0 ex_addr = Returns None w'
         \<and> trace w' = [EvClose 0] \<and> endpoints (nics w' 0) ex_addr = None)
   \<and> (\<exists>w'. RemoveAddress ex_borrowed 0 ex_addr = Returns None w'
         \<and> trace w' = [] \<and> endpoints (nics w' 0) ex_addr = Some 0
         \<and> (\<exists>w''. decRef w' 0 = Returns () w'' \<and> trace w'' = [EvClose 0]
               \<and> endpoints (nics w'' 0) ex_addr = None))"
proof -
  have a: "\<not> (\<exists>r. endpoints (nics ex_world 0) ex_addr = Some r \<and> holdsInsertRef (heap ex_world r))"
    by (simp add: ex_defs)
  have b: "endpoints (nics ex_bound 0) ex_addr = Some 0 \<and> holdsInsertRef (heap ex_bound 0)
        \<and> ep_ID (ep (heap ex_bound 0)) = ex_addr \<and> nic (heap ex_bound 0) = 0
        \<and> primary (nics ex_bound 0) (protocol (heap ex_bound 0)) = Some [0]"
    "refs (heap ex_bound 0) = 1" "trace ex_bound = []"
    by (simp_all add: ex_defs)
  have c: "endpoints (nics ex_borrowed 0) ex_addr = Some 0 \<and> holdsInsertRef (heap ex_borrowed 0)
        \<and> ep_ID (ep (heap ex_borrowed 0)) = ex_addr \<and> nic (heap ex_borrowed 0) = 0
        \<and> primary (nics ex_borrowed 0) (protocol (heap ex_borrowed 0)) = Some [0]"
    "refs (heap ex_borrowed 0) = 2" "trace ex_borrowed = []"
    by (simp_all add: ex_defs ex_borrowed_def)
  show ?thesis
    using RemoveAddress_unbinds [of ex_world 0 ex_addr 0 "[]"]
      RemoveAddress_unbinds [of ex_bound 0 ex_addr 0 "[0]"]
      RemoveAddress_unbinds [of ex_borrowed 0 ex_addr 0 "[0]"] a b c
    by auto
qed

section \<open>C4: the default address\<close>

lemma upd_ref_same: "g (heap w r) = heap w r \<Longrightarrow> upd_ref w r g = w"
  by (simp add: upd_ref_def)

lemma upd_ref_upd_ref: "upd_ref (upd_ref w r f) r g = upd_ref w r (g \<circ> f)"
  by (simp add: upd_ref_def)

lemma find_append_case:
  "find P (xs @ ys) = (case find P xs of None \<Rightarrow> find P ys | Some x \<Rightarrow> Some x)"
  by (induction xs) simp_all

lemma firstHolder_find:
  "firstHolder w rs =
     (case find (live_holder w) rs of
        None \<Rightarrow> (None, w)
      | Some r \<Rightarrow> (Some r, upd_ref w r (\<lambda>R. R\<lparr>refs := refs R + 1\<rparr>)))"
  by (induction rs) (simp_all add: live_holder_def tryIncRef_def Let_def)

lemma decRef_after_inc:
  assumes "refs (heap w r) \<noteq> 0"
  shows "decRef (upd_ref w r (\<lambda>R. R\<lparr>refs := refs R + 1\<rparr>)) r = Returns () w"
proof -
  let ?w1 = "upd_ref w r (\<lambda>R. R\<lparr>refs := refs R + 1\<rparr>)"
  have "refs (heap ?w1 r) \<noteq> 1" using assms by simp
  then have "decRef ?w1 r = Returns () (upd_ref ?w1 r (\<lambda>R. R\<lparr>refs := refs R - 1\<rparr>))"
    by (intro decRef_no_teardown) simp
  also have "upd_ref ?w1 r (\<lambda>R. R\<lparr>refs := refs R - 1\<rparr>) = w"
    by (simp add: upd_ref_upd_ref upd_ref_same)
  finally show ?thesis .
qed

lemma getMainNICAddress_eq:
  "getMainNICAddress w n prot ks =
     (case find (live_holder w)
             (primary_list (nics w n) prot @ map snd (range_endpoints (nics w n) ks)) of
        None \<Rightarrow> Returns (Inl ErrNoLinkAddress) w
      | Some r \<Rightarrow>
          Returns (Inr (ep_ID (ep (heap w r)),
                        leastConstrained (subnets (nics w n)) (ep_ID (ep (heap w r))))) w)"
proof (cases "find (live_holder w) (primary_list (nics w n) prot)")
  case None
  then have first: "(case primary (nics w n) prot of None \<Rightarrow> (None, w) | Some l \<Rightarrow> firstHolder w l) = (None, w)"
    by (cases "primary (nics w n) prot") (simp_all add: primary_list_def firstHolder_find)
  show ?thesis
  proof (cases "find (live_holder w) (map snd (range_endpoints (nics w n) ks))")
    case None
    with \<open>find (live_holder w) (primary_list (nics w n) prot) = None\<close> first show ?thesis
      by (simp add: getMainNICAddress_def find_append_case firstHolder_find)
  next
    case (Some r)
    then have "live_holder w r" by (auto simp: find_Some_iff)
    then have "refs (heap w r) \<noteq> 0" by (simp add: live_holder_def)
    with Some \<open>find (live_holder w) (primary_list (nics w n) prot) = None\<close> first show ?thesis
      by (simp add: getMainNICAddress_def find_append_case firstHolder_find decRef_after_inc Let_def)
  qed
next
  case (Some r)
  then have "live_holder w r" by (auto simp: find_Some_iff)
  then have nz: "refs (heap w r) \<noteq> 0" by (simp add: live_holder_def)
  from Some obtain l where l: "primary (nics w n) prot = Some l" "find (live_holder w) l = Some r"
    by (auto simp: primary_list_def split: option.splits)
  show ?thesis
    using Some l nz
    by (simp add: getMainNICAddress_def find_append_case firstHolder_find decRef_after_inc Let_def)
qed

lemma range_endpoints_Nil [simp]: "range_endpoints N [] = []"
  by (simp add: range_endpoints_def List.map_filter_def)

lemma range_endpoints_Cons [simp]:
  "range_endpoints N (k # ks) =
     (case endpoints N k of None \<Rightarrow> range_endpoints N ks
      | Some r \<Rightarrow> (k, r) # range_endpoints N ks)"
  by (cases "endpoints N k") (simp_all add: range_endpoints_def List.map_filter_def)

lemma range_endpoints_set:
  "set (range_endpoints N ks) = {(k, r). k \<in> set ks \<and> endpoints N k = Some r}"
  by (induction ks) (auto split: option.splits)

lemma ran_range_endpoints:
  "dom (endpoints N) \<subseteq> set ks \<Longrightarrow> snd ` set (range_endpoints N ks) = ran (endpoints N)"
proof -
  assume d: "dom (endpoints N) \<subseteq> set ks"
  have "snd ` {(k, r). k \<in> set ks \<and> endpoints N k = Some r} = ran (endpoints N)"
  proof (intro set_eqI iffI)
    fix r assume "r \<in> snd ` {(k, r). k \<in> set ks \<and> endpoints N k = Some r}"
    then show "r \<in> ran (endpoints N)" by (auto simp: ran_def)
  next
    fix r assume "r \<in> ran (endpoints N)"
    then obtain k where k: "endpoints N k = Some r" by (auto simp: ran_def)
    then have "k \<in> set ks" using d by (auto simp: dom_def)
    with k show "r \<in> snd ` {(k, r). k \<in> set ks \<and> endpoints N k = Some r}" by force
  qed
  then show ?thesis by (simp add: range_endpoints_set)
qed

lemma getMainNICAddress_fails_iff:
  assumes "dom (endpoints (nics w n)) \<subseteq> set ks"
  shows "(\<exists>w'. getMainNICAddress w n prot ks = Returns (Inl ErrNoLinkAddress) w')
     \<longleftrightarrow> \<not> (\<exists>r. live_holder w r
              \<and> (r \<in> set (primary_list (nics w n) prot) \<or> r \<in> ran (endpoints (nics w n))))"
proof -
  let ?cands = "primary_list (nics w n) prot @ map snd (range_endpoints (nics w n) ks)"
  have "(\<exists>w'. getMainNICAddress w n prot ks = Returns (Inl ErrNoLinkAddress) w')
     \<longleftrightarrow> find (live_holder w) ?cands = None"
    by (cases "find (live_holder w) ?cands") (simp_all add: getMainNICAddress_eq)
  also have "\<dots> \<longleftrightarrow> \<not> (\<exists>r. r \<in> set ?cands \<and> live_holder w r)"
    by (rule find_None_iff)
  also have "set ?cands = set (primary_list (nics w n) prot) \<union> ran (endpoints (nics w n))"
    using assms by (simp add: ran_range_endpoints)
  finally show ?thesis by auto
qed

lemma primary_list_register:
  "primary_list (nics (snd (registerEndpoint w n prot e peb)) n) prot =
     primacy_insert peb (primary_list (nics w n) prot) (next_ref w)"
  by (simp add: registerEndpoint_nics primary_list_def)

lemma live_holder_register:
  "live_holder (snd (registerEndpoint w n prot e peb)) r
     \<longleftrightarrow> (if r = next_ref w then True else live_holder w r)"
  by (simp add: live_holder_def registerEndpoint_heap)

lemma subnets_register [simp]:
  "subnets (nics (snd (registerEndpoint w n prot e peb)) n) = subnets (nics w n)"
  by (simp add: registerEndpoint_nics)

lemma getMainNICAddress_front:
  "getMainNICAddress (snd (registerEndpoint w n prot e FirstPrimaryEndpoint)) n prot ks =
     Returns (Inr (ep_ID e, leastConstrained (subnets (nics w n)) (ep_ID e)))
       (snd (registerEndpoint w n prot e FirstPrimaryEndpoint))"
  by (simp add: getMainNICAddress_eq primary_list_register primacy_insert_def
      live_holder_register registerEndpoint_heap)

lemma getMainNICAddress_back:
  assumes "find (live_holder w) (primary_list (nics w n) prot) = Some r"
    and "next_ref w \<notin> set (primary_list (nics w n) prot)"
  shows "getMainNICAddress (snd (registerEndpoint w n prot e CanBePrimaryEndpoint)) n prot ks =
     Returns (Inr (ep_ID (ep (heap w r)), leastConstrained (subnets (nics w n)) (ep_ID (ep (heap w r)))))
       (snd (registerEndpoint w n prot e CanBePrimaryEndpoint))"
proof -
  let ?w' = "snd (registerEndpoint w n prot e CanBePrimaryEndpoint)"
  let ?l = "primary_list (nics w n) prot"
  have "find (live_holder ?w') ?l = find (live_holder w) ?l"
    using assms(2) by (intro find_cong) (auto simp: live_holder_register)
  then have f: "find (live_holder ?w') (primary_list (nics ?w' n) prot @ map snd (range_endpoints (nics ?w' n) ks)) = Some r"
    using assms(1) by (simp add: primary_list_register primacy_insert_def find_append_case)
  have "r \<in> set ?l" using assms(1) by (auto simp: find_Some_iff)
  then have "r \<noteq> next_ref w" using assms(2) by auto
  then have "heap ?w' r = heap w r" by (simp add: registerEndpoint_heap)
  then show ?thesis
    by (simp add: getMainNICAddress_eq f)
qed

text \<open>
  C4.  \<open>getMainNICAddress\<close> leaves the state as it found it and answers with the first
  binding that holds its registration bit and has a nonzero count, looking through the
  protocol's primacy list front to back and then through the registry in the order the
  map is ranged over; it fails with \<open>ErrNoLinkAddress\<close> when there is none, which, when
  the range covers the registry, is exactly when neither the primacy list nor the
  registry has such a binding.  A binding just inserted at the front is the one chosen,
  and a binding inserted at the back does not displace a binding the list already
  offered.
\<close>

theorem getMainNICAddress_selects:
  "getMainNICAddress w n prot ks =
     (case find (live_holder w)
             (primary_list (nics w n) prot @ map snd (range_endpoints (nics w n) ks)) of
        None \<Rightarrow> Returns (Inl ErrNoLinkAddress) w
      | Some r \<Rightarrow>
          Returns (Inr (ep_ID (ep (heap w r)),
                        leastConstrained (subnets (nics w n)) (ep_ID (ep (heap w r))))) w)
   \<and> (dom (endpoints (nics w n)) \<subseteq> set ks \<longrightarrow>
        ((\<exists>w'. getMainNICAddress w n prot ks = Returns (Inl ErrNoLinkAddress) w')
          \<longleftrightarrow> \<not> (\<exists>r. live_holder w r
                 \<and> (r \<in> set (primary_list (nics w n) prot) \<or> r \<in> ran (endpoints (nics w n))))))
   \<and> getMainNICAddress (snd (registerEndpoint w n prot e FirstPrimaryEndpoint)) n prot ks =
       Returns (Inr (ep_ID e, leastConstrained (subnets (nics w n)) (ep_ID e)))
         (snd (registerEndpoint w n prot e FirstPrimaryEndpoint))
   \<and> (find (live_holder w) (primary_list (nics w n) prot) = Some r'
        \<and> next_ref w \<notin> set (primary_list (nics w n) prot) \<longrightarrow>
        getMainNICAddress (snd (registerEndpoint w n prot e CanBePrimaryEndpoint)) n prot ks =
          Returns (Inr (ep_ID (ep (heap w r')),
                        leastConstrained (subnets (nics w n)) (ep_ID (ep (heap w r')))))
            (snd (registerEndpoint w n prot e CanBePrimaryEndpoint)))"
  using getMainNICAddress_eq [of w n prot ks] getMainNICAddress_fails_iff [of w n ks prot]
    getMainNICAddress_front [of w n prot e ks] getMainNICAddress_back [of w n prot r' e ks]
  by blast

text \<open>
  Witness for C4: no address on \<open>ex_world\<close>; with \<open>ex_addr\<close> bound, a second address
  inserted at the front becomes the default, inserted at the back it does not.
\<close>

theorem getMainNICAddress_selects_witness:
  "(\<exists>w'. getMainNICAddress ex_world 0 IPv4ProtocolNumber [] = Returns (Inl ErrNoLinkAddress) w')
   \<and> returned (getMainNICAddress
        (snd (registerEndpoint ex_bound 0 IPv4ProtocolNumber \<lparr>ep_ID = ex_addr2\<rparr> FirstPrimaryEndpoint))
        0 IPv4ProtocolNumber [ex_addr, ex_addr2]) = Some (Inr (ex_addr2, zero_Subnet))
   \<and> returned (getMainNICAddress
        (snd (registerEndpoint ex_bound 0 IPv4ProtocolNumber \<lparr>ep_ID = ex_addr2\<rparr> CanBePrimaryEndpoint))
        0 IPv4ProtocolNumber [ex_addr, ex_addr2]) = Some (Inr (ex_addr, zero_Subnet))"
proof -
  have a: "dom (endpoints (nics ex_world 0)) \<subseteq> set []"
    "\<not> (\<exists>r. live_holder ex_world r
           \<and> (r \<in> set (primary_list (nics ex_world 0) IPv4ProtocolNumber)
               \<or> r \<in> ran (endpoints (nics ex_world 0))))"
    by (simp_all add: ex_defs primary_list_def live_holder_def)
  have b: "find (live_holder ex_bound) (primary_list (nics ex_bound 0) IPv4ProtocolNumber) = Some 0"
    "next_ref ex_bound \<notin> set (primary_list (nics ex_bound 0) IPv4ProtocolNumber)"
    "ep_ID (ep (heap ex_bound 0)) = ex_addr" "subnets (nics ex_bound 0) = []"
    by (simp_all add: ex_defs primary_list_def live_holder_def)
  have z: "leastConstrained [] ex_addr = zero_Subnet" "leastConstrained [] ex_addr2 = zero_Subnet"
    by (simp_all add: leastConstrained_def)
  have "\<exists>w'. getMainNICAddress ex_world 0 IPv4ProtocolNumber [] = Returns (Inl ErrNoLinkAddress) w'"
    using getMainNICAddress_selects [of ex_world 0 IPv4ProtocolNumber "[]" "\<lparr>ep_ID = ex_addr2\<rparr>" 0] a
    by blast
  moreover have "getMainNICAddress
        (snd (registerEndpoint ex_bound 0 IPv4ProtocolNumber \<lparr>ep_ID = ex_addr2\<rparr> FirstPrimaryEndpoint))
        0 IPv4ProtocolNumber [ex_addr, ex_addr2]
      = Returns (Inr (ep_ID \<lparr>ep_ID = ex_addr2\<rparr>,
                      leastConstrained (subnets (nics ex_bound 0)) (ep_ID \<lparr>ep_ID = ex_addr2\<rparr>)))
          (snd (registerEndpoint ex_bound 0 IPv4ProtocolNumber \<lparr>ep_ID = ex_addr2\<rparr> FirstPrimaryEndpoint))"
    using getMainNICAddress_selects
      [of ex_bound 0 IPv4ProtocolNumber "[ex_addr, ex_addr2]" "\<lparr>ep_ID = ex_addr2\<rparr>" 0]
    by blast
  moreover have "getMainNICAddress
        (snd (registerEndpoint ex_bound 0 IPv4ProtocolNumber \<lparr>ep_ID = ex_addr2\<rparr> CanBePrimaryEndpoint))
        0 IPv4ProtocolNumber [ex_addr, ex_addr2]
      = Returns (Inr (ep_ID (ep (heap ex_bound 0)),
                      leastConstrained (subnets (nics ex_bound 0)) (ep_ID (ep (heap ex_bound 0)))))
          (snd (registerEndpoint ex_bound 0 IPv4ProtocolNumber \<lparr>ep_ID = ex_addr2\<rparr> CanBePrimaryEndpoint))"
    using getMainNICAddress_selects
      [of ex_bound 0 IPv4ProtocolNumber "[ex_addr, ex_addr2]" "\<lparr>ep_ID = ex_addr2\<rparr>" 0] b(1,2)
    by blast
  ultimately show ?thesis
    using b(3,4) z by simp
qed

section \<open>C5: the subnet of the default address\<close>








lemma word_and_not_zero: "(x::8 word) AND NOT k = 0 \<Longrightarrow> x AND k = x"
proof -
  assume z: "x AND NOT k = 0"
  have "x = x AND (k OR NOT k)" by simp
  also have "\<dots> = (x AND k) OR (x AND NOT k)" by (rule bit.conj_disj_distrib)
  finally have "x = x AND k" using z by simp
  then show "x AND k = x" by simp
qed

lemma NewSubnet_masked:
  "length (a :: 8 word list) = length m \<Longrightarrow> \<not> list_ex (\<lambda>(x, k). x AND NOT k \<noteq> 0) (zip a m) \<Longrightarrow>
   list_all (\<lambda>(x, m, b). x AND m = b) (zip a (zip m a))"
  by (induction rule: list_induct2) (auto dest: word_and_not_zero)

lemma NewSubnet_contains_ID: "NewSubnet a m = Some s \<Longrightarrow> Contains s (Subnet_ID s)"
  by (auto simp: NewSubnet_def Contains_def Subnet_ID_def NewSubnet_masked split: if_splits)











section \<open>Steps that only close\<close>

lemma quiet_refl [simp]: "quiet w w"
  by (simp add: quiet_def)

lemma quiet_trans: "quiet w w' \<Longrightarrow> quiet w' w'' \<Longrightarrow> quiet w w''"
  by (auto simp: quiet_def)

lemma quiet_upd_ref [simp]: "quiet w (upd_ref w r g)"
  by (simp add: quiet_def)

lemma quiet_upd_nic [simp]: "quiet w (upd_nic w n f)"
  by (simp add: quiet_def)

lemma quiet_emit_close [simp]: "quiet w (emit w (EvClose r))"
  by (simp add: quiet_def)


lemma quiet_tryIncRef [simp]: "quiet w (snd (tryIncRef w r))"
  by (simp add: tryIncRef_def Let_def)

lemma quiet_lookupRef [simp]: "quiet w (snd (lookupRef w n a))"
  by (simp add: lookupRef_def tryIncRef_def Let_def split: option.splits)

lemma quiet_removeEndpointLocked [simp]: "quiet w (world_of (removeEndpointLocked w n r))"
  by (auto simp: removeEndpointLocked_def Let_def quiet_def split: option.splits)

lemma quiet_removeEndpoint [simp]: "quiet w (world_of (removeEndpoint w r))"
  by (simp add: removeEndpoint_def)

lemma quiet_decRef [simp]: "quiet w (world_of (decRef w r))"
proof -
  let ?w1 = "upd_ref w r (\<lambda>R. R\<lparr>refs := refs R - 1\<rparr>)"
  have "quiet w ?w1" by simp
  moreover have "quiet ?w1 (world_of (removeEndpoint ?w1 r))" by simp
  ultimately have "quiet w (world_of (removeEndpoint ?w1 r))" by (rule quiet_trans)
  then show ?thesis
    by (simp add: decRef_unfold Let_def)
qed

lemma quiet_registerEndpoint [simp]: "quiet w (snd (registerEndpoint w n prot e peb))"
  by (simp add: quiet_def)

lemma quiet_addAddressLocked [simp]:
  "quiet w (world_of (addAddressLocked w n prot addr peb replace))"
proof (cases "networkProtocols (stack w) prot")
  case None
  then show ?thesis by (simp add: addAddressLocked_def)
next
  case (Some np)
  show ?thesis
  proof (cases "NewEndpoint np (nic_id (nics w n)) addr")
    case (Inl err)
    with Some show ?thesis by (simp add: addAddressLocked_def)
  next
    case (Inr e)
    show ?thesis
    proof (cases "endpoints (nics w n) (ep_ID e)")
      case None
      with Some Inr show ?thesis by (simp add: addAddressLocked_def case_prod_beta)
    next
      case old: (Some old)
      show ?thesis
      proof (cases replace)
        case False
        with Some Inr old show ?thesis by (simp add: addAddressLocked_def)
      next
        case True
        have rm: "quiet w (world_of (removeEndpointLocked w n old))" by simp
        show ?thesis
        proof (cases "removeEndpointLocked w n old")
          case (Panics p w')
          with rm Some Inr old True show ?thesis by (simp add: addAddressLocked_def)
        next
          case (Returns u w')
          with rm have "quiet w w'" by simp
          then have "quiet w (snd (registerEndpoint w' n prot e peb))"
            by (rule quiet_trans) simp
          with Returns Some Inr old True show ?thesis
            by (simp add: addAddressLocked_def case_prod_beta)
        qed
      qed
    qed
  qed
qed

lemma quiet_addTemporary [simp]: "quiet w (world_of (addTemporary w n prot addr peb))"
proof -
  have q: "quiet w (world_of (addAddressLocked w n prot addr peb True))" by simp
  show ?thesis
  proof (cases "addAddressLocked w n prot addr peb True")
    case (Panics p w')
    with q show ?thesis by (simp add: addTemporary_def)
  next
    case (Returns res w')
    with q have "quiet w w'" by simp
    then have "quiet w (upd_ref w' rf g)" for rf g
      by (rule quiet_trans) simp
    with Returns \<open>quiet w w'\<close> show ?thesis
      by (cases res) (simp_all add: addTemporary_def)
  qed
qed

lemma quiet_getRef [simp]: "quiet w (world_of (getRef w n prot dst))"
proof -
  obtain r1 w1 where l1: "lookupRef w n dst = (r1, w1)" by (cases "lookupRef w n dst")
  obtain r2 w2 where l2: "lookupRef w1 n dst = (r2, w2)" by (cases "lookupRef w1 n dst")
  have q1: "quiet w w1" using quiet_lookupRef [of w n dst] l1 by simp
  have "quiet w1 w2" using quiet_lookupRef [of w1 n dst] l2 by simp
  with q1 have q2: "quiet w w2" by (rule quiet_trans)
  have q3: "quiet w (world_of (addTemporary w2 n prot dst CanBePrimaryEndpoint))"
    by (rule quiet_trans [OF q2]) simp
  show ?thesis
    using l1 l2 q1 q2 q3
    by (cases r1; cases r2) (simp_all add: getRef_def)
qed

section \<open>C6: dispatch of an inbound frame\<close>

lemma heap_removeEndpointLocked [simp]: "heap (world_of (removeEndpointLocked w n r)) = heap w"
  by (simp add: removeEndpointLocked_def Let_def split: option.splits)


lemma quiet_stats: "quiet w w' \<Longrightarrow> stats w' = stats w"
  by (simp add: quiet_def)

lemma quiet_stack: "quiet w w' \<Longrightarrow> stack w' = stack w"
  by (simp add: quiet_def)

lemma inc_fields [simp]:
  "trace (inc_UnknownProtocolRcvdPackets w) = trace w"
  "trace (inc_MalformedRcvdPackets w) = trace w"
  "trace (inc_IP_PacketsReceived w) = trace w"
  "trace (inc_IP_InvalidAddressesReceived w) = trace w"
  "stack (inc_UnknownProtocolRcvdPackets w) = stack w"
  "stack (inc_MalformedRcvdPackets w) = stack w"
  "stack (inc_IP_PacketsReceived w) = stack w"
  "stack (inc_IP_InvalidAddressesReceived w) = stack w"
  "nics (inc_UnknownProtocolRcvdPackets w) = nics w"
  "nics (inc_MalformedRcvdPackets w) = nics w"
  "nics (inc_IP_PacketsReceived w) = nics w"
  "nics (inc_IP_InvalidAddressesReceived w) = nics w"
  "heap (inc_UnknownProtocolRcvdPackets w) = heap w"
  "heap (inc_MalformedRcvdPackets w) = heap w"
  "heap (inc_IP_PacketsReceived w) = heap w"
  "heap (inc_IP_InvalidAddressesReceived w) = heap w"
  "next_ref (inc_UnknownProtocolRcvdPackets w) = next_ref w"
  "next_ref (inc_MalformedRcvdPackets w) = next_ref w"
  "next_ref (inc_IP_PacketsReceived w) = next_ref w"
  "next_ref (inc_IP_InvalidAddressesReceived w) = next_ref w"
  by (simp_all add: inc_UnknownProtocolRcvdPackets_def inc_MalformedRcvdPackets_def
      inc_IP_PacketsReceived_def inc_IP_InvalidAddressesReceived_def)

lemma inc_stats [simp]:
  "stats (inc_UnknownProtocolRcvdPackets w) =
     (stats w)\<lparr>UnknownProtocolRcvdPackets := UnknownProtocolRcvdPackets (stats w) + 1\<rparr>"
  "stats (inc_MalformedRcvdPackets w) =
     (stats w)\<lparr>MalformedRcvdPackets := MalformedRcvdPackets (stats w) + 1\<rparr>"
  "stats (inc_IP_PacketsReceived w) =
     (stats w)\<lparr>IP_PacketsReceived := IP_PacketsReceived (stats w) + 1\<rparr>"
  "stats (inc_IP_InvalidAddressesReceived w) =
     (stats w)\<lparr>IP_InvalidAddressesReceived := IP_InvalidAddressesReceived (stats w) + 1\<rparr>"
  by (simp_all add: inc_UnknownProtocolRcvdPackets_def inc_MalformedRcvdPackets_def
      inc_IP_PacketsReceived_def inc_IP_InvalidAddressesReceived_def)

lemma countIPPacket_fields [simp]:
  "trace (countIPPacket np w) = trace w"
  "stack (countIPPacket np w) = stack w"
  "nics (countIPPacket np w) = nics w"
  "heap (countIPPacket np w) = heap w"
  "next_ref (countIPPacket np w) = next_ref w"
  by (simp_all add: countIPPacket_def)

lemma DeliverNetworkPacket_unknown:
  "networkProtocols (stack w) prot = None \<Longrightarrow>
   DeliverNetworkPacket w n lep rl ll prot vv = Returns () (inc_UnknownProtocolRcvdPackets w)"
  by (simp add: DeliverNetworkPacket_def)

lemma DeliverNetworkPacket_short:
  "networkProtocols (stack w) prot = Some np \<Longrightarrow> int (length (First vv)) < MinimumPacketSize np \<Longrightarrow>
   DeliverNetworkPacket w n lep rl ll prot vv =
     Returns () (inc_MalformedRcvdPackets (countIPPacket np w))"
  by (simp add: DeliverNetworkPacket_def Let_def)

lemma DeliverNetworkPacket_local:
  assumes "networkProtocols (stack w) prot = Some np"
    and "\<not> int (length (First vv)) < MinimumPacketSize np"
    and "ParseAddresses np (First vv) = (src, dst)"
    and "getRef (countIPPacket np w) n prot dst = Returns (Some rf) w1"
  shows "DeliverNetworkPacket w n lep rl ll prot vv =
     decRef (emit w1 (EvHandlePacket rf
               ((makeRoute prot dst src (LinkAddress lep) rf)\<lparr>RemoteLinkAddress := rl\<rparr>) vv)) rf"
  using assms by (simp add: DeliverNetworkPacket_def Let_def)

lemma handler_calls_emit [simp]:
  "handler_calls (emit w (EvHandlePacket rf r vv)) = handler_calls w @ [EvHandlePacket rf r vv]"
  by (simp add: handler_calls_def)

lemma handler_calls_countIPPacket [simp]: "handler_calls (countIPPacket np w) = handler_calls w"
  by (simp add: handler_calls_def)



lemmas ex_frame_defs = ex_lep_def ex_hdr_def ex_frame_def ex_hdr_other_def ex_frame_other_def
  ex_short_def ex_route_def First_def RemoveFirst_def makeRoute_def

lemma ex_bound_obs:
  "networkProtocols (stack ex_bound) IPv4ProtocolNumber = Some ex_proto"
  "networkProtocols (stack ex_bound) 0x0806 = None"
  "endpoints (nics ex_bound 0) ex_addr = Some 0"
  "refs (heap ex_bound 0) = 1"
  "trace ex_bound = []"
  "stats ex_bound = \<lparr>UnknownProtocolRcvdPackets = 0, MalformedRcvdPackets = 0,
               IP_PacketsReceived = 0, IP_InvalidAddressesReceived = 0\<rparr>"
  by (simp_all add: ex_defs IPv4ProtocolNumber_def)

lemma ex_frame_obs:
  "\<not> int (length (First ex_frame)) < MinimumPacketSize ex_proto"
  "int (length (First ex_short)) < MinimumPacketSize ex_proto"
  "ParseAddresses ex_proto (First ex_frame) = ([10, 0, 0, 9], ex_addr)"
  by (simp_all add: ex_frame_defs ex_proto_def ex_addr_def)


section \<open>C10: the IP packets-received counter\<close>

lemma stats_decRef [simp]: "stats (world_of (decRef w r)) = stats w"
  using quiet_decRef [of w r] by (simp add: quiet_def)

lemma stats_lookupRef [simp]: "stats (snd (lookupRef w n a)) = stats w"
  using quiet_lookupRef [of w n a] by (simp add: quiet_def)

lemma stats_forwardPacket [simp]: "stats (world_of (forwardPacket w r dst prot vv)) = stats w"
proof -
  obtain rf w1 where l: "lookupRef w (nic (heap w (route_ref r))) dst = (rf, w1)"
    by (cases "lookupRef w (nic (heap w (route_ref r))) dst")
  then have "stats w1 = stats w"
    using stats_lookupRef [of w "nic (heap w (route_ref r))" dst] by simp
  with l show ?thesis
    by (cases rf) (simp_all add: forwardPacket_def Let_def)
qed

lemma world_of_deferRelease [simp]:
  "world_of (deferRelease r res) = emit (world_of res) (EvRelease r)"
  by (cases res) (simp_all add: deferRelease_def)

lemma DeliverNetworkPacket_ip_stat:
  assumes np: "networkProtocols (stack w) prot = Some np"
  shows "IP_PacketsReceived (stats (world_of (DeliverNetworkPacket w n lep rl ll prot vv)))
         = IP_PacketsReceived (stats (countIPPacket np w))"
proof (cases "int (length (First vv)) < MinimumPacketSize np")
  case True
  then show ?thesis using np by (simp add: DeliverNetworkPacket_short)
next
  case False
  let ?w0 = "countIPPacket np w"
  obtain src dst where pa: "ParseAddresses np (First vv) = (src, dst)"
    by (cases "ParseAddresses np (First vv)")
  have q: "quiet ?w0 (world_of (getRef ?w0 n prot dst))" by simp
  show ?thesis
  proof (cases "getRef ?w0 n prot dst")
    case (Panics p w1)
    with q have "stats w1 = stats ?w0" by (simp add: quiet_def)
    with Panics np False pa show ?thesis by (simp add: DeliverNetworkPacket_def Let_def)
  next
    case (Returns res w1)
    with q have s1: "stats w1 = stats ?w0" by (simp add: quiet_def)
    show ?thesis
    proof (cases res)
      case (Some rf)
      with Returns np False pa s1 show ?thesis
        by (simp add: DeliverNetworkPacket_local)
    next
      case None
      with Returns np False pa s1 show ?thesis
        by (simp add: DeliverNetworkPacket_def Let_def split: sum.splits)
    qed
  qed
qed

text \<open>
  C10.  For a frame whose protocol is registered with the IPv4 or the IPv6 number, the
  IP packets-received counter is one more at the end of \<open>DeliverNetworkPacket\<close> on
  every path, panics included.  The increment precedes the size check: a frame
  dropped as malformed leaves both counters incremented, and a frame whose destination
  does not resolve, with forwarding off, is counted as received and as an invalid
  address.
\<close>

theorem DeliverNetworkPacket_counts_ip:
  "networkProtocols (stack w) prot = Some np
     \<and> (Number np = IPv4ProtocolNumber \<or> Number np = IPv6ProtocolNumber) \<longrightarrow>
   IP_PacketsReceived (stats (world_of (DeliverNetworkPacket w n lep rl ll prot vv)))
     = IP_PacketsReceived (stats w) + 1
   \<and> (int (length (First vv)) < MinimumPacketSize np \<longrightarrow>
        DeliverNetworkPacket w n lep rl ll prot vv
          = Returns () (inc_MalformedRcvdPackets (inc_IP_PacketsReceived w)))
   \<and> (\<not> int (length (First vv)) < MinimumPacketSize np
        \<and> getRef (inc_IP_PacketsReceived w) n prot (snd (ParseAddresses np (First vv)))
            = Returns None w1
        \<and> \<not> Forwarding (stack w1) \<longrightarrow>
        DeliverNetworkPacket w n lep rl ll prot vv
          = Returns () (inc_IP_InvalidAddressesReceived w1)
        \<and> IP_PacketsReceived (stats w1) = IP_PacketsReceived (stats w) + 1)"
proof (intro impI conjI)
  assume a: "networkProtocols (stack w) prot = Some np
     \<and> (Number np = IPv4ProtocolNumber \<or> Number np = IPv6ProtocolNumber)"
  then have c: "countIPPacket np w = inc_IP_PacketsReceived w"
    by (simp add: countIPPacket_def)
  show "IP_PacketsReceived (stats (world_of (DeliverNetworkPacket w n lep rl ll prot vv)))
     = IP_PacketsReceived (stats w) + 1"
    using a DeliverNetworkPacket_ip_stat [of w prot np n lep rl ll vv] by (simp add: c)
  {
    assume "int (length (First vv)) < MinimumPacketSize np"
    then show "DeliverNetworkPacket w n lep rl ll prot vv
          = Returns () (inc_MalformedRcvdPackets (inc_IP_PacketsReceived w))"
      using a by (simp add: DeliverNetworkPacket_short c)
  }
  {
    assume b: "\<not> int (length (First vv)) < MinimumPacketSize np
        \<and> getRef (inc_IP_PacketsReceived w) n prot (snd (ParseAddresses np (First vv)))
            = Returns None w1
        \<and> \<not> Forwarding (stack w1)"
    then show "DeliverNetworkPacket w n lep rl ll prot vv
          = Returns () (inc_IP_InvalidAddressesReceived w1)"
      using a by (simp add: DeliverNetworkPacket_def Let_def c case_prod_beta)
    have "quiet (inc_IP_PacketsReceived w) w1"
      using quiet_getRef [of "inc_IP_PacketsReceived w" n prot "snd (ParseAddresses np (First vv))"] b
      by simp
    then show "IP_PacketsReceived (stats w1) = IP_PacketsReceived (stats w) + 1"
      by (simp add: quiet_def)
  }
qed

text \<open>
  Witness for C10: on \<open>ex_bound\<close> the three-byte frame and the frame for the unbound
  10.0.0.7 are both counted as received IP packets.
\<close>

theorem DeliverNetworkPacket_counts_ip_witness:
  "IP_PacketsReceived (stats (world_of (DeliverNetworkPacket ex_bound 0 ex_lep [2, 0, 0, 0, 0, 2]
       [2, 0, 0, 0, 0, 1] IPv4ProtocolNumber ex_short))) = 1
   \<and> MalformedRcvdPackets (stats (world_of (DeliverNetworkPacket ex_bound 0 ex_lep [2, 0, 0, 0, 0, 2]
       [2, 0, 0, 0, 0, 1] IPv4ProtocolNumber ex_short))) = 1
   \<and> IP_PacketsReceived (stats (world_of (DeliverNetworkPacket ex_bound 0 ex_lep [2, 0, 0, 0, 0, 2]
       [2, 0, 0, 0, 0, 1] IPv4ProtocolNumber ex_frame_other))) = 1
   \<and> IP_InvalidAddressesReceived (stats (world_of (DeliverNetworkPacket ex_bound 0 ex_lep [2, 0, 0, 0, 0, 2]
       [2, 0, 0, 0, 0, 1] IPv4ProtocolNumber ex_frame_other))) = 1"
proof -
  note T = DeliverNetworkPacket_counts_ip
  have n: "networkProtocols (stack ex_bound) IPv4ProtocolNumber = Some ex_proto
     \<and> (Number ex_proto = IPv4ProtocolNumber \<or> Number ex_proto = IPv6ProtocolNumber)"
    by (simp add: ex_bound_obs ex_proto_def)
  have s: "DeliverNetworkPacket ex_bound 0 ex_lep [2, 0, 0, 0, 0, 2] [2, 0, 0, 0, 0, 1]
       IPv4ProtocolNumber ex_short = Returns () (inc_MalformedRcvdPackets (inc_IP_PacketsReceived ex_bound))"
    using T [of ex_bound IPv4ProtocolNumber ex_proto 0 ex_lep "[2, 0, 0, 0, 0, 2]" "[2, 0, 0, 0, 0, 1]" ex_short]
      n ex_frame_obs(2)
    by blast
  have o: "\<not> int (length (First ex_frame_other)) < MinimumPacketSize ex_proto"
    "snd (ParseAddresses ex_proto (First ex_frame_other)) = [10, 0, 0, 7]"
    by (simp_all add: ex_frame_defs ex_proto_def)
  have g: "getRef (inc_IP_PacketsReceived ex_bound) 0 IPv4ProtocolNumber [10, 0, 0, 7]
       = Returns None (inc_IP_PacketsReceived ex_bound)"
    by (simp add: getRef_def lookupRef_def ex_defs)
  have f: "\<not> Forwarding (stack (inc_IP_PacketsReceived ex_bound))"
    by (simp add: ex_defs)
  have u: "DeliverNetworkPacket ex_bound 0 ex_lep [2, 0, 0, 0, 0, 2] [2, 0, 0, 0, 0, 1]
       IPv4ProtocolNumber ex_frame_other
       = Returns () (inc_IP_InvalidAddressesReceived (inc_IP_PacketsReceived ex_bound))"
    using T [of ex_bound IPv4ProtocolNumber ex_proto 0 ex_lep "[2, 0, 0, 0, 0, 2]" "[2, 0, 0, 0, 0, 1]"
               ex_frame_other "inc_IP_PacketsReceived ex_bound"]
      n o g f
    by simp
  show ?thesis
    by (simp add: s u ex_bound_obs)
qed

section \<open>C7: forwarding\<close>

lemma lookupRef_live_eq:
  "endpoints (nics w n) a = Some rf \<Longrightarrow> refs (heap w rf) \<noteq> 0 \<Longrightarrow>
   lookupRef w n a = (Some rf, upd_ref w rf (\<lambda>R. R\<lparr>refs := refs R + 1\<rparr>))"
  by (simp add: lookupRef_def tryIncRef_def Let_def)

lemma lookupRef_dead_eq:
  "\<forall>rf. endpoints (nics w n) a = Some rf \<longrightarrow> refs (heap w rf) = 0 \<Longrightarrow>
   lookupRef w n a = (None, w)"
  by (cases "endpoints (nics w n) a") (simp_all add: lookupRef_def tryIncRef_def Let_def)

lemma forwardPacket_redeliver:
  assumes "endpoints (nics w (nic (heap w (route_ref r)))) dst = Some rf"
    and "refs (heap w rf) \<noteq> 0"
  shows "forwardPacket w r dst prot vv = Returns () (emit w (EvHandlePacket rf r vv))"
proof -
  let ?w2 = "emit w (EvHandlePacket rf r vv)"
  have sw: "emit (upd_ref w rf (\<lambda>R. R\<lparr>refs := refs R + 1\<rparr>)) (EvHandlePacket rf r vv)
        = upd_ref ?w2 rf (\<lambda>R. R\<lparr>refs := refs R + 1\<rparr>)"
    by (simp add: emit_def upd_ref_def)
  have "refs (heap ?w2 rf) \<noteq> 0" using assms(2) by simp
  then have "decRef (upd_ref ?w2 rf (\<lambda>R. R\<lparr>refs := refs R + 1\<rparr>)) rf = Returns () ?w2"
    by (rule decRef_after_inc)
  then show ?thesis
    using lookupRef_live_eq [OF assms] by (simp add: forwardPacket_def Let_def sw)
qed

lemma forwardPacket_write:
  assumes "\<forall>rf. endpoints (nics w (nic (heap w (route_ref r)))) dst = Some rf \<longrightarrow> refs (heap w rf) = 0"
  shows "forwardPacket w r dst prot vv =
     Returns () (emit w (EvWritePacket (nic (heap w (route_ref r))) r (First vv) (RemoveFirst vv) prot))"
  using lookupRef_dead_eq [OF assms] by (simp add: forwardPacket_def Let_def)

lemma DeliverNetworkPacket_unresolved:
  assumes "networkProtocols (stack w) prot = Some np"
    and "\<not> int (length (First vv)) < MinimumPacketSize np"
    and "ParseAddresses np (First vv) = (src, dst)"
    and "getRef (countIPPacket np w) n prot dst = Returns None w1"
  shows "DeliverNetworkPacket w n lep rl ll prot vv =
     (if Forwarding (stack w1) then
        (case FindRoute (stack w1) 0 [] dst prot of
           Inl err \<Rightarrow> Returns () (inc_IP_InvalidAddressesReceived w1)
         | Inr r0 \<Rightarrow>
             deferRelease (r0\<lparr>LocalLinkAddress := LinkAddress (linkEP (nics w1 n)),
                              RemoteLinkAddress := rl\<rparr>)
               (forwardPacket w1 (r0\<lparr>LocalLinkAddress := LinkAddress (linkEP (nics w1 n)),
                                      RemoteLinkAddress := rl\<rparr>) dst prot vv))
      else Returns () (inc_IP_InvalidAddressesReceived w1))"
  using assms by (simp add: DeliverNetworkPacket_def Let_def split: sum.splits)

lemma invalid_countIPPacket:
  "IP_InvalidAddressesReceived (stats (countIPPacket np w)) = IP_InvalidAddressesReceived (stats w)"
  by (simp add: countIPPacket_def)

lemma DeliverNetworkPacket_invalid:
  assumes "getRef (countIPPacket np w) n prot dst = Returns None w1"
    and "DeliverNetworkPacket w n lep rl ll prot vv = Returns () (inc_IP_InvalidAddressesReceived w1)"
  shows "\<exists>w'. DeliverNetworkPacket w n lep rl ll prot vv = Returns () w'
           \<and> IP_InvalidAddressesReceived (stats w') = IP_InvalidAddressesReceived (stats w) + 1
           \<and> stats w' = (stats w1)\<lparr>IP_InvalidAddressesReceived :=
                                      IP_InvalidAddressesReceived (stats w1) + 1\<rparr>
           \<and> trace w' = trace w1 \<and> heap w' = heap w1 \<and> nics w' = nics w1"
proof -
  have "stats w1 = stats (countIPPacket np w)"
    using quiet_getRef [of "countIPPacket np w" n prot dst] assms(1) by (simp add: quiet_stats)
  then have "IP_InvalidAddressesReceived (stats w1) = IP_InvalidAddressesReceived (stats w)"
    by (simp add: invalid_countIPPacket)
  then show ?thesis using assms(2) by simp
qed

text \<open>
  C7.  For a frame of a known protocol, long enough, whose destination \<open>getRef\<close> does not
  resolve: with forwarding on and a route found, the target interface is the one of the
  route's binding, and the call returns having appended either the one \<open>HandlePacket\<close>
  on the target interface's binding for the destination, when that binding has a
  nonzero count, or else the one \<open>WritePacket\<close> on the target interface with the first
  view as header and the remaining views as payload, and in both cases then the one
  \<open>Release\<close> of the route, which is the last event on every exit; counts, counters and
  registries are as before.  With forwarding on and no route, and with forwarding
  off, the call returns with the invalid-address counter one above its value before
  the call (modulo \<open>2^64\<close>, the width of the counter), and nothing else happens: the
  other counters, the trace, the counts and the registries are as \<open>getRef\<close> left them.
\<close>

theorem DeliverNetworkPacket_forwarding:
  "networkProtocols (stack w) prot = Some np
     \<and> \<not> int (length (First vv)) < MinimumPacketSize np
     \<and> ParseAddresses np (First vv) = (src, dst)
     \<and> getRef (countIPPacket np w) n prot dst = Returns None w1 \<longrightarrow>
   (Forwarding (stack w1) \<and> FindRoute (stack w1) 0 [] dst prot = Inr r0
      \<and> r = r0\<lparr>LocalLinkAddress := LinkAddress (linkEP (nics w1 n)), RemoteLinkAddress := rl\<rparr>
      \<and> n' = nic (heap w1 (route_ref r0)) \<longrightarrow>
      (endpoints (nics w1 n') dst = Some rf \<and> refs (heap w1 rf) \<noteq> 0 \<longrightarrow>
         (\<exists>w'. DeliverNetworkPacket w n lep rl ll prot vv = Returns () w'
            \<and> trace w' = trace w1 @ [EvHandlePacket rf r vv, EvRelease r]
            \<and> stats w' = stats w1 \<and> heap w' = heap w1 \<and> nics w' = nics w1))
      \<and> ((\<forall>rf'. endpoints (nics w1 n') dst = Some rf' \<longrightarrow> refs (heap w1 rf') = 0) \<longrightarrow>
         (\<exists>w'. DeliverNetworkPacket w n lep rl ll prot vv = Returns () w'
            \<and> trace w' = trace w1 @
                [EvWritePacket n' r (First vv) (RemoveFirst vv) prot, EvRelease r]
            \<and> stats w' = stats w1 \<and> heap w' = heap w1 \<and> nics w' = nics w1))
      \<and> (\<exists>evs. trace (world_of (DeliverNetworkPacket w n lep rl ll prot vv))
                 = trace w1 @ evs @ [EvRelease r]
              \<and> EvRelease r \<notin> set evs))
   \<and> (Forwarding (stack w1) \<and> FindRoute (stack w1) 0 [] dst prot = Inl err \<longrightarrow>
        (\<exists>w'. DeliverNetworkPacket w n lep rl ll prot vv = Returns () w'
           \<and> IP_InvalidAddressesReceived (stats w') = IP_InvalidAddressesReceived (stats w) + 1
           \<and> stats w' = (stats w1)\<lparr>IP_InvalidAddressesReceived :=
                                      IP_InvalidAddressesReceived (stats w1) + 1\<rparr>
           \<and> trace w' = trace w1 \<and> heap w' = heap w1 \<and> nics w' = nics w1))
   \<and> (\<not> Forwarding (stack w1) \<longrightarrow>
        (\<exists>w'. DeliverNetworkPacket w n lep rl ll prot vv = Returns () w'
           \<and> IP_InvalidAddressesReceived (stats w') = IP_InvalidAddressesReceived (stats w) + 1
           \<and> stats w' = (stats w1)\<lparr>IP_InvalidAddressesReceived :=
                                      IP_InvalidAddressesReceived (stats w1) + 1\<rparr>
           \<and> trace w' = trace w1 \<and> heap w' = heap w1 \<and> nics w' = nics w1))"
proof (intro impI)
  assume a: "networkProtocols (stack w) prot = Some np
     \<and> \<not> int (length (First vv)) < MinimumPacketSize np
     \<and> ParseAddresses np (First vv) = (src, dst)
     \<and> getRef (countIPPacket np w) n prot dst = Returns None w1"
  note u = DeliverNetworkPacket_unresolved [of w prot np vv src dst n w1 lep rl ll]
  have A: "(endpoints (nics w1 n') dst = Some rf \<and> refs (heap w1 rf) \<noteq> 0 \<longrightarrow>
         (\<exists>w'. DeliverNetworkPacket w n lep rl ll prot vv = Returns () w'
            \<and> trace w' = trace w1 @ [EvHandlePacket rf r vv, EvRelease r]
            \<and> stats w' = stats w1 \<and> heap w' = heap w1 \<and> nics w' = nics w1))
      \<and> ((\<forall>rf'. endpoints (nics w1 n') dst = Some rf' \<longrightarrow> refs (heap w1 rf') = 0) \<longrightarrow>
         (\<exists>w'. DeliverNetworkPacket w n lep rl ll prot vv = Returns () w'
            \<and> trace w' = trace w1 @
                [EvWritePacket n' r (First vv) (RemoveFirst vv) prot, EvRelease r]
            \<and> stats w' = stats w1 \<and> heap w' = heap w1 \<and> nics w' = nics w1))
      \<and> (\<exists>evs. trace (world_of (DeliverNetworkPacket w n lep rl ll prot vv))
                 = trace w1 @ evs @ [EvRelease r]
              \<and> EvRelease r \<notin> set evs)"
    if f: "Forwarding (stack w1) \<and> FindRoute (stack w1) 0 [] dst prot = Inr r0
      \<and> r = r0\<lparr>LocalLinkAddress := LinkAddress (linkEP (nics w1 n)), RemoteLinkAddress := rl\<rparr>
      \<and> n' = nic (heap w1 (route_ref r0))"
  proof -
    have eq: "DeliverNetworkPacket w n lep rl ll prot vv = deferRelease r (forwardPacket w1 r dst prot vv)"
      using a f u by simp
    have n': "n' = nic (heap w1 (route_ref r))" using f by simp
    have live: "\<exists>w'. DeliverNetworkPacket w n lep rl ll prot vv = Returns () w'
            \<and> trace w' = trace w1 @ [EvHandlePacket rf r vv, EvRelease r]
            \<and> stats w' = stats w1 \<and> heap w' = heap w1 \<and> nics w' = nics w1"
      if "endpoints (nics w1 n') dst = Some rf \<and> refs (heap w1 rf) \<noteq> 0"
      using that forwardPacket_redeliver [of w1 r dst rf prot vv]
      by (simp add: eq n' deferRelease_def)
    have dead: "\<exists>w'. DeliverNetworkPacket w n lep rl ll prot vv = Returns () w'
            \<and> trace w' = trace w1 @
                [EvWritePacket n' r (First vv) (RemoveFirst vv) prot, EvRelease r]
            \<and> stats w' = stats w1 \<and> heap w' = heap w1 \<and> nics w' = nics w1"
      if "\<forall>rf'. endpoints (nics w1 n') dst = Some rf' \<longrightarrow> refs (heap w1 rf') = 0"
      using that forwardPacket_write [of w1 r dst prot vv]
      by (simp add: eq n' deferRelease_def)
    have once: "\<exists>evs. trace (world_of (DeliverNetworkPacket w n lep rl ll prot vv))
                 = trace w1 @ evs @ [EvRelease r] \<and> EvRelease r \<notin> set evs"
    proof (cases "\<forall>rf'. endpoints (nics w1 n') dst = Some rf' \<longrightarrow> refs (heap w1 rf') = 0")
      case True
      from dead [OF this] show ?thesis by auto
    next
      case False
      then obtain rf' where l: "endpoints (nics w1 n') dst = Some rf'" "refs (heap w1 rf') \<noteq> 0"
        by auto
      then show ?thesis
        using forwardPacket_redeliver [of w1 r dst rf' prot vv]
        by (simp add: eq n' deferRelease_def)
    qed
    show ?thesis using live dead once by blast
  qed
  have B: "\<exists>w'. DeliverNetworkPacket w n lep rl ll prot vv = Returns () w'
           \<and> IP_InvalidAddressesReceived (stats w') = IP_InvalidAddressesReceived (stats w) + 1
           \<and> stats w' = (stats w1)\<lparr>IP_InvalidAddressesReceived :=
                                      IP_InvalidAddressesReceived (stats w1) + 1\<rparr>
           \<and> trace w' = trace w1 \<and> heap w' = heap w1 \<and> nics w' = nics w1"
    if "Forwarding (stack w1) \<and> FindRoute (stack w1) 0 [] dst prot = Inl err"
    using a that u DeliverNetworkPacket_invalid [of np w n prot dst w1 lep rl ll vv] by simp
  have C: "\<exists>w'. DeliverNetworkPacket w n lep rl ll prot vv = Returns () w'
           \<and> IP_InvalidAddressesReceived (stats w') = IP_InvalidAddressesReceived (stats w) + 1
           \<and> stats w' = (stats w1)\<lparr>IP_InvalidAddressesReceived :=
                                      IP_InvalidAddressesReceived (stats w1) + 1\<rparr>
           \<and> trace w' = trace w1 \<and> heap w' = heap w1 \<and> nics w' = nics w1"
    if "\<not> Forwarding (stack w1)"
    using a that u DeliverNetworkPacket_invalid [of np w n prot dst w1 lep rl ll vv] by simp
  show "(Forwarding (stack w1) \<and> FindRoute (stack w1) 0 [] dst prot = Inr r0
      \<and> r = r0\<lparr>LocalLinkAddress := LinkAddress (linkEP (nics w1 n)), RemoteLinkAddress := rl\<rparr>
      \<and> n' = nic (heap w1 (route_ref r0)) \<longrightarrow>
      (endpoints (nics w1 n') dst = Some rf \<and> refs (heap w1 rf) \<noteq> 0 \<longrightarrow>
         (\<exists>w'. DeliverNetworkPacket w n lep rl ll prot vv = Returns () w'
            \<and> trace w' = trace w1 @ [EvHandlePacket rf r vv, EvRelease r]
            \<and> stats w' = stats w1 \<and> heap w' = heap w1 \<and> nics w' = nics w1))
      \<and> ((\<forall>rf'. endpoints (nics w1 n') dst = Some rf' \<longrightarrow> refs (heap w1 rf') = 0) \<longrightarrow>
         (\<exists>w'. DeliverNetworkPacket w n lep rl ll prot vv = Returns () w'
            \<and> trace w' = trace w1 @
                [EvWritePacket n' r (First vv) (RemoveFirst vv) prot, EvRelease r]
            \<and> stats w' = stats w1 \<and> heap w' = heap w1 \<and> nics w' = nics w1))
      \<and> (\<exists>evs. trace (world_of (DeliverNetworkPacket w n lep rl ll prot vv))
                 = trace w1 @ evs @ [EvRelease r]
              \<and> EvRelease r \<notin> set evs))
   \<and> (Forwarding (stack w1) \<and> FindRoute (stack w1) 0 [] dst prot = Inl err \<longrightarrow>
        (\<exists>w'. DeliverNetworkPacket w n lep rl ll prot vv = Returns () w'
           \<and> IP_InvalidAddressesReceived (stats w') = IP_InvalidAddressesReceived (stats w) + 1
           \<and> stats w' = (stats w1)\<lparr>IP_InvalidAddressesReceived :=
                                      IP_InvalidAddressesReceived (stats w1) + 1\<rparr>
           \<and> trace w' = trace w1 \<and> heap w' = heap w1 \<and> nics w' = nics w1))
   \<and> (\<not> Forwarding (stack w1) \<longrightarrow>
        (\<exists>w'. DeliverNetworkPacket w n lep rl ll prot vv = Returns () w'
           \<and> IP_InvalidAddressesReceived (stats w') = IP_InvalidAddressesReceived (stats w) + 1
           \<and> stats w' = (stats w1)\<lparr>IP_InvalidAddressesReceived :=
                                      IP_InvalidAddressesReceived (stats w1) + 1\<rparr>
           \<and> trace w' = trace w1 \<and> heap w' = heap w1 \<and> nics w' = nics w1))"
    using A B C by blast
qed

lemmas ex_fwd_defs = ex_fwd_def ex_fwd_stack_def ex_hdr2_def ex_frame2_def ex_fwd_route_def
  ex_noroute_def ex_addr2_def

lemma ex_fwd_obs:
  "networkProtocols (stack ex_fwd) IPv4ProtocolNumber = Some ex_proto"
  "endpoints (nics ex_fwd 0) = Map.empty"
  "\<not> promiscuous (nics ex_fwd 0)"
  "subnets (nics ex_fwd 0) = []"
  "nic (heap ex_fwd 0) = 1"
  "endpoints (nics ex_fwd 1) = [ex_addr2 \<mapsto> 0]"
  "refs (heap ex_fwd 0) = 1"
  "trace ex_fwd = []"
  "Forwarding (stack ex_fwd)"
  "FindRoute (stack ex_fwd) 0 [] d IPv4ProtocolNumber =
     Inr \<lparr>NetProto = IPv4ProtocolNumber, LocalAddress = ex_addr2, RemoteAddress = d,
          LocalLinkAddress = [], RemoteLinkAddress = [], route_ref = 0\<rparr>"
  "LinkAddress (linkEP (nics ex_fwd 0)) = []"
  by (simp_all add: ex_defs ex_fwd_defs)

lemma ex_noroute_obs:
  "networkProtocols (stack ex_noroute) IPv4ProtocolNumber = Some ex_proto"
  "endpoints (nics ex_noroute 0) = Map.empty"
  "\<not> promiscuous (nics ex_noroute 0)"
  "subnets (nics ex_noroute 0) = []"
  "Forwarding (stack ex_noroute)"
  "FindRoute (stack ex_noroute) 0 [] d IPv4ProtocolNumber = Inl ErrNoRoute"
  "stats ex_noroute = \<lparr>UnknownProtocolRcvdPackets = 0, MalformedRcvdPackets = 0,
               IP_PacketsReceived = 0, IP_InvalidAddressesReceived = 0\<rparr>"
  by (simp_all add: ex_defs ex_fwd_defs)

lemma getRef_not_mine:
  assumes "endpoints (nics w n) dst = None" "\<not> promiscuous (nics w n)"
    "\<not> list_ex (\<lambda>sn. Contains sn dst) (subnets (nics w n))"
  shows "getRef w n prot dst = Returns None w"
  using assms by (simp add: getRef_def lookupRef_def)

lemma ex_proto_ip: "countIPPacket ex_proto w = inc_IP_PacketsReceived w"
  by (simp add: countIPPacket_def ex_proto_def)

lemma ex_frame2_obs:
  "\<not> int (length (First ex_frame2)) < MinimumPacketSize ex_proto"
  "ParseAddresses ex_proto (First ex_frame2) = ([10, 0, 0, 9], ex_addr2)"
  "\<not> int (length (First ex_frame_other)) < MinimumPacketSize ex_proto"
  "ParseAddresses ex_proto (First ex_frame_other) = ([10, 0, 0, 9], [10, 0, 0, 7])"
  "First ex_frame_other = ex_hdr_other" "RemoveFirst ex_frame_other = [[1, 2, 3, 4]]"
  by (simp_all add: ex_frame_defs ex_fwd_defs ex_proto_def)

text \<open>
  Witness for C7: on \<open>ex_fwd\<close> a frame for \<open>ex_addr2\<close> is redelivered on interface 1 and
  a frame for 10.0.0.7 is written out of interface 1; on \<open>ex_noroute\<close> (forwarding on,
  no route) and on \<open>ex_bound\<close> (forwarding off) the frame for 10.0.0.7 takes the
  invalid-address counter from 0 to 1 and the received-packets counter from 0 to 1,
  and no call leaves the file.
\<close>

theorem DeliverNetworkPacket_forwarding_witness:
  "(\<exists>w'. DeliverNetworkPacket ex_fwd 0 ex_lep [2, 0, 0, 0, 0, 2] [2, 0, 0, 0, 0, 1]
            IPv4ProtocolNumber ex_frame2 = Returns () w'
       \<and> trace w' = [EvHandlePacket 0 (ex_fwd_route ex_addr2) ex_frame2,
                      EvRelease (ex_fwd_route ex_addr2)])
   \<and> (\<exists>w'. DeliverNetworkPacket ex_fwd 0 ex_lep [2, 0, 0, 0, 0, 2] [2, 0, 0, 0, 0, 1]
            IPv4ProtocolNumber ex_frame_other = Returns () w'
       \<and> trace w' = [EvWritePacket 1 (ex_fwd_route [10, 0, 0, 7]) ex_hdr_other [[1, 2, 3, 4]]
                        IPv4ProtocolNumber,
                      EvRelease (ex_fwd_route [10, 0, 0, 7])])
   \<and> IP_InvalidAddressesReceived (stats ex_noroute) = 0
   \<and> (\<exists>w'. DeliverNetworkPacket ex_noroute 0 ex_lep [2, 0, 0, 0, 0, 2] [2, 0, 0, 0, 0, 1]
            IPv4ProtocolNumber ex_frame_other = Returns () w'
       \<and> stats w' = \<lparr>UnknownProtocolRcvdPackets = 0, MalformedRcvdPackets = 0,
                      IP_PacketsReceived = 1, IP_InvalidAddressesReceived = 1\<rparr>
       \<and> trace w' = [])
   \<and> IP_InvalidAddressesReceived (stats ex_bound) = 0
   \<and> (\<exists>w'. DeliverNetworkPacket ex_bound 0 ex_lep [2, 0, 0, 0, 0, 2] [2, 0, 0, 0, 0, 1]
            IPv4ProtocolNumber ex_frame_other = Returns () w'
       \<and> stats w' = \<lparr>UnknownProtocolRcvdPackets = 0, MalformedRcvdPackets = 0,
                      IP_PacketsReceived = 1, IP_InvalidAddressesReceived = 1\<rparr>
       \<and> trace w' = [])"
proof -
  note T = DeliverNetworkPacket_forwarding
  let ?w1 = "inc_IP_PacketsReceived ex_fwd"
  have g: "getRef (countIPPacket ex_proto ex_fwd) 0 IPv4ProtocolNumber d = Returns None ?w1" for d
    unfolding ex_proto_ip by (rule getRef_not_mine) (simp_all add: ex_fwd_obs)
  have r: "\<lparr>NetProto = IPv4ProtocolNumber, LocalAddress = ex_addr2, RemoteAddress = d,
          LocalLinkAddress = [], RemoteLinkAddress = [], route_ref = 0\<rparr>
          \<lparr>LocalLinkAddress := LinkAddress (linkEP (nics ?w1 0)), RemoteLinkAddress := [2, 0, 0, 0, 0, 2]\<rparr>
        = ex_fwd_route d" for d
    by (simp add: ex_fwd_route_def ex_fwd_obs)
  have c1: "\<exists>w'. DeliverNetworkPacket ex_fwd 0 ex_lep [2, 0, 0, 0, 0, 2] [2, 0, 0, 0, 0, 1]
            IPv4ProtocolNumber ex_frame2 = Returns () w'
       \<and> trace w' = trace ?w1 @ [EvHandlePacket 0 (ex_fwd_route ex_addr2) ex_frame2,
                      EvRelease (ex_fwd_route ex_addr2)]
       \<and> stats w' = stats ?w1 \<and> heap w' = heap ?w1 \<and> nics w' = nics ?w1"
    using T [of ex_fwd IPv4ProtocolNumber ex_proto ex_frame2 "[10, 0, 0, 9]" ex_addr2 0 ?w1
               "\<lparr>NetProto = IPv4ProtocolNumber, LocalAddress = ex_addr2, RemoteAddress = ex_addr2,
                 LocalLinkAddress = [], RemoteLinkAddress = [], route_ref = 0\<rparr>"
               "ex_fwd_route ex_addr2" "[2, 0, 0, 0, 0, 2]" 1 0 ex_lep "[2, 0, 0, 0, 0, 1]"]
      ex_fwd_obs ex_frame2_obs g r
    by simp
  have c2: "\<exists>w'. DeliverNetworkPacket ex_fwd 0 ex_lep [2, 0, 0, 0, 0, 2] [2, 0, 0, 0, 0, 1]
            IPv4ProtocolNumber ex_frame_other = Returns () w'
       \<and> trace w' = trace ?w1 @
            [EvWritePacket 1 (ex_fwd_route [10, 0, 0, 7]) (First ex_frame_other)
               (RemoveFirst ex_frame_other) IPv4ProtocolNumber,
             EvRelease (ex_fwd_route [10, 0, 0, 7])]
       \<and> stats w' = stats ?w1 \<and> heap w' = heap ?w1 \<and> nics w' = nics ?w1"
    using T [of ex_fwd IPv4ProtocolNumber ex_proto ex_frame_other "[10, 0, 0, 9]" "[10, 0, 0, 7]" 0 ?w1
               "\<lparr>NetProto = IPv4ProtocolNumber, LocalAddress = ex_addr2, RemoteAddress = [10, 0, 0, 7],
                 LocalLinkAddress = [], RemoteLinkAddress = [], route_ref = 0\<rparr>"
               "ex_fwd_route [10, 0, 0, 7]" "[2, 0, 0, 0, 0, 2]" 1 0 ex_lep "[2, 0, 0, 0, 0, 1]"]
      ex_fwd_obs ex_frame2_obs g r
    by (simp add: ex_addr2_def)
  have g3: "getRef (countIPPacket ex_proto ex_noroute) 0 IPv4ProtocolNumber [10, 0, 0, 7]
      = Returns None (inc_IP_PacketsReceived ex_noroute)"
    unfolding ex_proto_ip by (rule getRef_not_mine) (simp_all add: ex_noroute_obs)
  have c3: "\<exists>w'. DeliverNetworkPacket ex_noroute 0 ex_lep [2, 0, 0, 0, 0, 2] [2, 0, 0, 0, 0, 1]
            IPv4ProtocolNumber ex_frame_other = Returns () w'
       \<and> IP_InvalidAddressesReceived (stats w') = IP_InvalidAddressesReceived (stats ex_noroute) + 1
       \<and> stats w' = (stats (inc_IP_PacketsReceived ex_noroute))\<lparr>IP_InvalidAddressesReceived :=
              IP_InvalidAddressesReceived (stats (inc_IP_PacketsReceived ex_noroute)) + 1\<rparr>
       \<and> trace w' = trace (inc_IP_PacketsReceived ex_noroute)"
    using T [of ex_noroute IPv4ProtocolNumber ex_proto ex_frame_other "[10, 0, 0, 9]" "[10, 0, 0, 7]" 0
               "inc_IP_PacketsReceived ex_noroute" _ _ "[2, 0, 0, 0, 0, 2]" _ _ ex_lep "[2, 0, 0, 0, 0, 1]" ErrNoRoute]
      ex_noroute_obs ex_frame2_obs g3
    by auto
  have g4: "getRef (countIPPacket ex_proto ex_bound) 0 IPv4ProtocolNumber [10, 0, 0, 7]
      = Returns None (inc_IP_PacketsReceived ex_bound)"
    unfolding ex_proto_ip by (rule getRef_not_mine) (simp_all add: ex_defs)
  have f4: "\<not> Forwarding (stack (inc_IP_PacketsReceived ex_bound))"
    by (simp add: ex_defs)
  have c4: "\<exists>w'. DeliverNetworkPacket ex_bound 0 ex_lep [2, 0, 0, 0, 0, 2] [2, 0, 0, 0, 0, 1]
            IPv4ProtocolNumber ex_frame_other = Returns () w'
       \<and> IP_InvalidAddressesReceived (stats w') = IP_InvalidAddressesReceived (stats ex_bound) + 1
       \<and> stats w' = (stats (inc_IP_PacketsReceived ex_bound))\<lparr>IP_InvalidAddressesReceived :=
              IP_InvalidAddressesReceived (stats (inc_IP_PacketsReceived ex_bound)) + 1\<rparr>
       \<and> trace w' = trace (inc_IP_PacketsReceived ex_bound)"
    using T [of ex_bound IPv4ProtocolNumber ex_proto ex_frame_other "[10, 0, 0, 9]" "[10, 0, 0, 7]" 0
               "inc_IP_PacketsReceived ex_bound" _ _ "[2, 0, 0, 0, 0, 2]" _ _ ex_lep "[2, 0, 0, 0, 0, 1]"]
      ex_bound_obs(1) ex_frame2_obs g4 f4
    by auto
  have t: "trace ex_noroute = []" by (simp add: ex_defs ex_fwd_defs)
  show ?thesis
    using c1 c2 c3 c4 by (auto simp: ex_fwd_obs ex_frame2_obs ex_noroute_obs ex_bound_obs t)
qed

section \<open>C8: the transport chain\<close>

lemma DeliverTransportPacket_chain:
  assumes "transportProtocols (stack w) prot = Some state"
    and "\<not> int (length (First vv)) < tp_MinimumPacketSize (proto state)"
    and "ParsePorts (proto state) (First vv) = Inr (srcPort, dstPort)"
    and "ident = TransportEndpointID dstPort (LocalAddress r) srcPort (RemoteAddress r)"
    and "ch = spec_chain (transport_stages w n state r prot vv ident)"
  shows "DeliverTransportPacket w n r prot vv =
     (if snd ch then w\<lparr>trace := trace w @ fst ch\<rparr>
      else inc_MalformedRcvdPackets (w\<lparr>trace := trace w @ fst ch\<rparr>))"
  using assms
  by (cases "defaultHandler state")
     (simp_all add: DeliverTransportPacket_def Let_def transport_stages_def
        unknownDestination_def emit_def inc_MalformedRcvdPackets_def upd_stats_def)

text \<open>
  C8.  For a packet of a registered transport protocol, long enough, whose ports parse,
  \<open>DeliverTransportPacket\<close> makes exactly the calls of the ordered chain (interface
  demultiplexer, stack demultiplexer, default handler if the protocol has one,
  unknown-destination handler) up to and including the first that reports handled, and
  increments the malformed counter exactly when none does, in which case all stages
  were tried.  A packet the interface's demultiplexer handles produces that one call
  and nothing else.
\<close>

theorem DeliverTransportPacket_ordered_chain:
  "transportProtocols (stack w) prot = Some state
     \<and> \<not> int (length (First vv)) < tp_MinimumPacketSize (proto state)
     \<and> ParsePorts (proto state) (First vv) = Inr (srcPort, dstPort)
     \<and> ident = TransportEndpointID dstPort (LocalAddress r) srcPort (RemoteAddress r)
     \<and> ch = spec_chain (transport_stages w n state r prot vv ident) \<longrightarrow>
   trace (DeliverTransportPacket w n r prot vv) = trace w @ fst ch
   \<and> MalformedRcvdPackets (stats (DeliverTransportPacket w n r prot vv))
       = (if snd ch then MalformedRcvdPackets (stats w) else MalformedRcvdPackets (stats w) + 1)
   \<and> (deliverPacket (demux (nics w n)) r prot vv ident \<longrightarrow>
        DeliverTransportPacket w n r prot vv = emit w (EvNicDemux n r prot vv ident))
   \<and> (snd ch \<longleftrightarrow> (\<exists>s \<in> set (transport_stages w n state r prot vv ident). snd s))
   \<and> (\<not> snd ch \<longrightarrow> fst ch = map fst (transport_stages w n state r prot vv ident))"
proof (intro impI)
  assume a: "transportProtocols (stack w) prot = Some state
     \<and> \<not> int (length (First vv)) < tp_MinimumPacketSize (proto state)
     \<and> ParsePorts (proto state) (First vv) = Inr (srcPort, dstPort)
     \<and> ident = TransportEndpointID dstPort (LocalAddress r) srcPort (RemoteAddress r)
     \<and> ch = spec_chain (transport_stages w n state r prot vv ident)"
  then have eq: "DeliverTransportPacket w n r prot vv =
     (if snd ch then w\<lparr>trace := trace w @ fst ch\<rparr>
      else inc_MalformedRcvdPackets (w\<lparr>trace := trace w @ fst ch\<rparr>))"
    by (intro DeliverTransportPacket_chain) simp_all
  have any: "snd (spec_chain st) \<longleftrightarrow> (\<exists>s \<in> set st. snd s)" for st
    by (induction st rule: spec_chain.induct) auto
  have all: "\<not> snd (spec_chain st) \<Longrightarrow> fst (spec_chain st) = map fst st" for st
    by (induction st rule: spec_chain.induct) (auto split: if_splits)
  have first: "DeliverTransportPacket w n r prot vv = emit w (EvNicDemux n r prot vv ident)"
    if "deliverPacket (demux (nics w n)) r prot vv ident"
    using that a by (simp add: eq transport_stages_def emit_def)
  show "trace (DeliverTransportPacket w n r prot vv) = trace w @ fst ch
   \<and> MalformedRcvdPackets (stats (DeliverTransportPacket w n r prot vv))
       = (if snd ch then MalformedRcvdPackets (stats w) else MalformedRcvdPackets (stats w) + 1)
   \<and> (deliverPacket (demux (nics w n)) r prot vv ident \<longrightarrow>
        DeliverTransportPacket w n r prot vv = emit w (EvNicDemux n r prot vv ident))
   \<and> (snd ch \<longleftrightarrow> (\<exists>s \<in> set (transport_stages w n state r prot vv ident). snd s))
   \<and> (\<not> snd ch \<longrightarrow> fst ch = map fst (transport_stages w n state r prot vv ident))"
    using a first any [of "transport_stages w n state r prot vv ident"]
      all [of "transport_stages w n state r prot vv ident"]
    by (simp add: eq)
qed

lemmas ex_t_defs = ex_tproto_def ex_tstack_def ex_tworld_def ex_handles_def ex_tlocal_def
  ex_segment_def ex_tid_def

text \<open>
  Witness for C8: port 80 handled by the interface's demultiplexer on \<open>ex_tlocal\<close>; on
  \<open>ex_tworld\<close> no stage takes the packet and it is counted as malformed.
\<close>

theorem DeliverTransportPacket_ordered_chain_witness:
  "DeliverTransportPacket ex_tlocal 0 ex_route 17 ex_segment
     = emit ex_tlocal (EvNicDemux 0 ex_route 17 ex_segment ex_tid)
   \<and> trace (DeliverTransportPacket ex_tworld 0 ex_route 17 ex_segment)
     = [EvNicDemux 0 ex_route 17 ex_segment ex_tid, EvStackDemux ex_route 17 ex_segment ex_tid,
        EvUnknownDestination ex_route ex_tid ex_segment]
   \<and> MalformedRcvdPackets (stats (DeliverTransportPacket ex_tworld 0 ex_route 17 ex_segment)) = 1"
proof -
  note T = DeliverTransportPacket_ordered_chain
  let ?st = "\<lparr>proto = ex_tproto, defaultHandler = None\<rparr>"
  have p: "\<not> int (length (First ex_segment)) < tp_MinimumPacketSize (proto ?st)"
    "ParsePorts (proto ?st) (First ex_segment) = Inr (53, 80)"
    "ex_tid = TransportEndpointID 80 (LocalAddress ex_route) 53 (RemoteAddress ex_route)"
    by (simp_all add: ex_t_defs ex_frame_defs)
  have l: "transportProtocols (stack ex_tlocal) 17 = Some ?st"
    "deliverPacket (demux (nics ex_tlocal 0)) ex_route 17 ex_segment ex_tid"
    by (simp_all add: ex_t_defs ex_defs)
  have c1: "DeliverTransportPacket ex_tlocal 0 ex_route 17 ex_segment
     = emit ex_tlocal (EvNicDemux 0 ex_route 17 ex_segment ex_tid)"
    using T [of ex_tlocal 17 ?st ex_segment 53 80 ex_tid ex_route
               "spec_chain (transport_stages ex_tlocal 0 ?st ex_route 17 ex_segment ex_tid)" 0] p l
    by blast
  have g: "transportProtocols (stack ex_tworld) 17 = Some ?st"
    "spec_chain (transport_stages ex_tworld 0 ?st ex_route 17 ex_segment ex_tid)
      = ([EvNicDemux 0 ex_route 17 ex_segment ex_tid, EvStackDemux ex_route 17 ex_segment ex_tid,
          EvUnknownDestination ex_route ex_tid ex_segment], False)"
    "trace ex_tworld = []" "MalformedRcvdPackets (stats ex_tworld) = 0"
    by (simp_all add: ex_t_defs ex_defs transport_stages_def)
  have c2: "trace (DeliverTransportPacket ex_tworld 0 ex_route 17 ex_segment)
       = trace ex_tworld @ fst (spec_chain (transport_stages ex_tworld 0 ?st ex_route 17 ex_segment ex_tid))
     \<and> MalformedRcvdPackets (stats (DeliverTransportPacket ex_tworld 0 ex_route 17 ex_segment))
       = (if snd (spec_chain (transport_stages ex_tworld 0 ?st ex_route 17 ex_segment ex_tid))
          then MalformedRcvdPackets (stats ex_tworld) else MalformedRcvdPackets (stats ex_tworld) + 1)"
    using T [of ex_tworld 17 ?st ex_segment 53 80 ex_tid ex_route
               "spec_chain (transport_stages ex_tworld 0 ?st ex_route 17 ex_segment ex_tid)" 0] p g(1)
    by blast
  show ?thesis
    using c1 c2 by (simp add: g)
qed

section \<open>C9: primacy lists stay within the registry\<close>

lemma lists_wf_shape: "shape w' = shape w \<Longrightarrow> lists_wf w' = lists_wf w"
proof -
  assume s: "shape w' = shape w"
  then have a: "\<And>n. primary (nics w' n) = primary (nics w n)"
    "\<And>n. endpoints (nics w' n) = endpoints (nics w n)"
    "\<And>r. ep (heap w' r) = ep (heap w r)" "\<And>r. nic (heap w' r) = nic (heap w r)"
    "\<And>r. protocol (heap w' r) = protocol (heap w r)" "next_ref w' = next_ref w"
    by (auto simp: shape_def fun_eq_iff)
  show ?thesis
    unfolding lists_wf_def a ..
qed

lemma shape_upd_ref_refs [simp]: "shape (upd_ref w r (\<lambda>R. R\<lparr>refs := v R\<rparr>)) = shape w"
  by (simp add: shape_def fun_eq_iff)

lemma shape_upd_ref_holds [simp]: "shape (upd_ref w r (\<lambda>R. R\<lparr>holdsInsertRef := v R\<rparr>)) = shape w"
  by (simp add: shape_def fun_eq_iff)

lemma shape_emit [simp]: "shape (emit w e) = shape w"
  by (simp add: shape_def)

lemma shape_upd_stats [simp]: "shape (upd_stats w f) = shape w"
  by (simp add: shape_def)

lemma shape_inc [simp]:
  "shape (inc_UnknownProtocolRcvdPackets w) = shape w"
  "shape (inc_MalformedRcvdPackets w) = shape w"
  "shape (inc_IP_PacketsReceived w) = shape w"
  "shape (inc_IP_InvalidAddressesReceived w) = shape w"
  "shape (countIPPacket np w) = shape w"
  by (simp_all add: shape_def)

lemma shape_tryIncRef [simp]: "shape (snd (tryIncRef w r)) = shape w"
  by (simp add: tryIncRef_def Let_def)

lemma shape_lookupRef [simp]: "shape (snd (lookupRef w n a)) = shape w"
  by (simp add: lookupRef_def case_prod_beta split: option.splits)

lemma shape_firstHolder [simp]: "shape (snd (firstHolder w rs)) = shape w"
  by (simp add: firstHolder_find split: option.splits)

lemma shape_firstPrimary [simp]: "shape (snd (firstPrimary w rs)) = shape w"
proof (induction rs arbitrary: w)
  case Nil
  then show ?case by simp
next
  case (Cons r rs)
  have "shape (snd (firstPrimary (snd (tryIncRef w r)) rs)) = shape w"
    by (simp add: Cons.IH)
  then show ?case
    by (simp add: Let_def case_prod_beta Cons.IH)
qed

lemma shape_primaryEndpoint [simp]: "shape (snd (primaryEndpoint w n prot)) = shape w"
  by (simp add: primaryEndpoint_def split: option.splits)

lemma shape_flags [simp]:
  "shape (setPromiscuousMode w n b) = shape w"
  "shape (setSpoofing w n b) = shape w"
  "shape (AddSubnet w n prot sn) = shape w"
  "shape (RemoveSubnet w n sn) = shape w"
  by (simp_all add: shape_def setPromiscuousMode_def setSpoofing_def AddSubnet_def
      RemoveSubnet_def fun_eq_iff)

lemma shape_counts [simp]:
  "shape (incRef w r) = shape w"
  "shape (snd (AddInt32_refs w r d)) = shape w"
  by (simp_all add: incRef_def AddInt32_refs_def)

lemma shape_DeliverTransportPacket [simp]: "shape (DeliverTransportPacket w n r prot vv) = shape w"
  by (simp add: DeliverTransportPacket_def unknownDestination_def Let_def
      split: option.splits sum.splits prod.splits)

lemma shape_DeliverTransportControlPacket [simp]:
  "shape (DeliverTransportControlPacket w n localAddr remoteAddr net tprot typ extra vv) = shape w"
  by (simp add: DeliverTransportControlPacket_def Let_def
      split: option.splits sum.splits prod.splits)

lemma world_of_forget [simp]: "world_of (forget x) = world_of x"
  by (cases x) simp_all

lemma world_of_Subnets [simp]:
  "world_of (Subnets w n ks) = w"
  "world_of (ContainsSubnet w n ks sn) = w"
  by (simp_all add: Subnets_def ContainsSubnet_def split: option.splits)

lemma wf_removeEndpointLocked:
  assumes wf: "lists_wf w"
  shows "lists_wf (world_of (removeEndpointLocked w n r))"
proof (cases "endpoints (nics w n) (ep_ID (ep (heap w r))) = Some r")
  case False
  then show ?thesis using wf by (simp add: removeEndpointLocked_not_registered)
next
  case reg: True
  show ?thesis
  proof (cases "holdsInsertRef (heap w r)")
    case True
    with reg wf show ?thesis by (simp add: removeEndpointLocked_panics)
  next
    case nh: False
    let ?id = "ep_ID (ep (heap w r))"
    have other: "r' = r"
      if "primary (nics w n) prot = Some l" "r' \<in> set l" "ep_ID (ep (heap w r')) = ?id" for prot l r'
      using wf that reg unfolding lists_wf_def by (metis option.inject)
    have own: "prot = protocol (heap w r)"
      if "primary (nics w n) prot = Some l" "r \<in> set l" for prot l
      using wf that unfolding lists_wf_def by blast
    show ?thesis
    proof (cases "primary (nics w n) (protocol (heap w r))")
      case None
      have "removeEndpointLocked w n r =
          Panics NilListDereference (upd_nic w n (\<lambda>N. N\<lparr>endpoints := (endpoints N)(?id := None)\<rparr>))"
        using reg nh None by (simp add: removeEndpointLocked_def Let_def)
      moreover have "lists_wf (upd_nic w n (\<lambda>N. N\<lparr>endpoints := (endpoints N)(?id := None)\<rparr>))"
        unfolding lists_wf_def
      proof (intro allI impI)
        fix n' prot l r'
        assume l: "primary (nics (upd_nic w n (\<lambda>N. N\<lparr>endpoints := (endpoints N)(?id := None)\<rparr>)) n') prot = Some l"
          and r': "r' \<in> set l"
        then have l0: "primary (nics w n') prot = Some l" by (simp split: if_splits)
        with wf r' have base: "r' < next_ref w \<and> nic (heap w r') = n' \<and> protocol (heap w r') = prot
            \<and> endpoints (nics w n') (ep_ID (ep (heap w r'))) = Some r'"
          unfolding lists_wf_def by blast
        have "ep_ID (ep (heap w r')) \<noteq> ?id" if "n' = n"
        proof
          assume "ep_ID (ep (heap w r')) = ?id"
          with other l0 r' that have "r' = r" by blast
          with own l0 r' that have "prot = protocol (heap w r)" by blast
          with l0 that None show False by simp
        qed
        with base show "r' < next_ref (upd_nic w n (\<lambda>N. N\<lparr>endpoints := (endpoints N)(?id := None)\<rparr>))
            \<and> nic (heap (upd_nic w n (\<lambda>N. N\<lparr>endpoints := (endpoints N)(?id := None)\<rparr>)) r') = n'
            \<and> protocol (heap (upd_nic w n (\<lambda>N. N\<lparr>endpoints := (endpoints N)(?id := None)\<rparr>)) r') = prot
            \<and> endpoints (nics (upd_nic w n (\<lambda>N. N\<lparr>endpoints := (endpoints N)(?id := None)\<rparr>)) n')
                 (ep_ID (ep (heap (upd_nic w n (\<lambda>N. N\<lparr>endpoints := (endpoints N)(?id := None)\<rparr>)) r'))) = Some r'"
          by auto
      qed
      ultimately show ?thesis by simp
    next
      case (Some l0)
      let ?w' = "emit (upd_nic w n (\<lambda>N. N\<lparr>endpoints := (endpoints N)(?id := None),
                    primary := (primary N)(protocol (heap w r) \<mapsto> removeAll r l0)\<rparr>)) (EvClose r)"
      have eq: "removeEndpointLocked w n r = Returns () ?w'"
        using reg nh Some by (rule removeEndpointLocked_teardown)
      have "lists_wf ?w'"
        unfolding lists_wf_def
      proof (intro allI impI)
        fix n' prot l r'
        assume l: "primary (nics ?w' n') prot = Some l" and r': "r' \<in> set l"
        have "\<exists>l'. primary (nics w n') prot = Some l' \<and> r' \<in> set l' \<and> (n' = n \<longrightarrow> r' \<noteq> r)"
        proof (cases "n' = n \<and> prot = protocol (heap w r)")
          case True
          with l have "l = removeAll r l0" by simp
          with r' True Some show ?thesis by auto
        next
          case False
          with l have l0: "primary (nics w n') prot = Some l" by (auto split: if_splits)
          have "r' \<noteq> r" if "n' = n"
            using own [of prot l] l0 r' that False by auto
          with l0 r' show ?thesis by blast
        qed
        then obtain l' where l': "primary (nics w n') prot = Some l'" "r' \<in> set l'"
          and ne: "n' = n \<longrightarrow> r' \<noteq> r" by blast
        with wf have base: "r' < next_ref w \<and> nic (heap w r') = n' \<and> protocol (heap w r') = prot
            \<and> endpoints (nics w n') (ep_ID (ep (heap w r'))) = Some r'"
          unfolding lists_wf_def by blast
        have "ep_ID (ep (heap w r')) \<noteq> ?id" if "n' = n"
          using other [of prot l' r'] l' ne that by auto
        with base show "r' < next_ref ?w' \<and> nic (heap ?w' r') = n' \<and> protocol (heap ?w' r') = prot
            \<and> endpoints (nics ?w' n') (ep_ID (ep (heap ?w' r'))) = Some r'"
          by auto
      qed
      then show ?thesis by (simp add: eq)
    qed
  qed
qed

lemma wf_shape: "lists_wf w \<Longrightarrow> shape w' = shape w \<Longrightarrow> lists_wf w'"
  using lists_wf_shape [of w' w] by blast

lemmas wf_same [simp] =
  lists_wf_shape [OF shape_upd_ref_refs] lists_wf_shape [OF shape_upd_ref_holds]
  lists_wf_shape [OF shape_emit] lists_wf_shape [OF shape_upd_stats]
  lists_wf_shape [OF shape_inc(1)] lists_wf_shape [OF shape_inc(2)]
  lists_wf_shape [OF shape_inc(3)] lists_wf_shape [OF shape_inc(4)]
  lists_wf_shape [OF shape_inc(5)] lists_wf_shape [OF shape_tryIncRef]
  lists_wf_shape [OF shape_lookupRef] lists_wf_shape [OF shape_firstHolder]
  lists_wf_shape [OF shape_firstPrimary] lists_wf_shape [OF shape_primaryEndpoint]
  lists_wf_shape [OF shape_flags(1)] lists_wf_shape [OF shape_flags(2)]
  lists_wf_shape [OF shape_flags(3)] lists_wf_shape [OF shape_flags(4)]
  lists_wf_shape [OF shape_counts(1)] lists_wf_shape [OF shape_counts(2)]
  lists_wf_shape [OF shape_DeliverTransportPacket]
  lists_wf_shape [OF shape_DeliverTransportControlPacket]

lemma wf_removeEndpoint: "lists_wf w \<Longrightarrow> lists_wf (world_of (removeEndpoint w r))"
  by (simp add: removeEndpoint_def wf_removeEndpointLocked)

lemma wf_decRef: "lists_wf w \<Longrightarrow> lists_wf (world_of (decRef w r))"
proof -
  assume wf: "lists_wf w"
  let ?w1 = "upd_ref w r (\<lambda>R. R\<lparr>refs := refs R - 1\<rparr>)"
  have "lists_wf ?w1" using wf by (rule wf_shape) simp
  then have "lists_wf (world_of (removeEndpoint ?w1 r))" by (rule wf_removeEndpoint)
  with \<open>lists_wf ?w1\<close> show ?thesis
    by (simp add: decRef_unfold Let_def)
qed

lemma removeEndpointLocked_unlists:
  assumes wf: "lists_wf w" and ret: "removeEndpointLocked w n r = Returns u w'"
  shows "\<not> listed_on w' n r"
proof (cases "endpoints (nics w n) (ep_ID (ep (heap w r))) = Some r")
  case False
  then have "w' = w" using ret by (simp add: removeEndpointLocked_not_registered)
  moreover have "\<not> listed_on w n r"
    using wf False unfolding lists_wf_def listed_on_def by blast
  ultimately show ?thesis by simp
next
  case reg: True
  then have nh: "\<not> holdsInsertRef (heap w r)"
    using ret by (auto simp: removeEndpointLocked_panics)
  obtain l0 where l0: "primary (nics w n) (protocol (heap w r)) = Some l0"
    using ret reg nh by (cases "primary (nics w n) (protocol (heap w r))")
      (simp_all add: removeEndpointLocked_def Let_def)
  have w': "w' = emit (upd_nic w n (\<lambda>N. N\<lparr>endpoints := (endpoints N)(ep_ID (ep (heap w r)) := None),
                    primary := (primary N)(protocol (heap w r) \<mapsto> removeAll r l0)\<rparr>)) (EvClose r)"
    using ret removeEndpointLocked_teardown [OF reg nh l0] by simp
  show ?thesis
  proof
    assume "listed_on w' n r"
    then obtain prot l where l: "primary (nics w' n) prot = Some l" "r \<in> set l"
      by (auto simp: listed_on_def)
    show False
    proof (cases "prot = protocol (heap w r)")
      case True
      with l w' show False by auto
    next
      case False
      with l w' have "primary (nics w n) prot = Some l" by simp
      with wf l(2) have "protocol (heap w r) = prot" unfolding lists_wf_def by blast
      with False show False by simp
    qed
  qed
qed

lemma removeEndpointLocked_registry:
  "endpoints (nics (world_of (removeEndpointLocked w n r)) n') k = Some x \<Longrightarrow>
   endpoints (nics w n') k = Some x"
  by (auto simp: removeEndpointLocked_def Let_def split: if_splits option.splits)

lemma wf_registerEndpoint:
  assumes wf: "lists_wf w"
    and fresh: "\<And>r. listed_on w n r \<Longrightarrow> ep_ID (ep (heap w r)) \<noteq> ep_ID e"
  shows "lists_wf (snd (registerEndpoint w n prot e peb))"
  unfolding lists_wf_def
proof (intro allI impI)
  let ?w' = "snd (registerEndpoint w n prot e peb)"
  fix n' p l r
  assume l: "primary (nics ?w' n') p = Some l" and r: "r \<in> set l"
  show "r < next_ref ?w' \<and> nic (heap ?w' r) = n' \<and> protocol (heap ?w' r) = p
        \<and> endpoints (nics ?w' n') (ep_ID (ep (heap ?w' r))) = Some r"
  proof (cases "r = next_ref w")
    case True
    have "\<not> (\<exists>l'. primary (nics w n') p = Some l' \<and> r \<in> set l')"
      using wf True unfolding lists_wf_def by (metis less_irrefl)
    with l r have "n' = n \<and> p = prot"
      by (auto simp: registerEndpoint_nics split: if_splits)
    with True show ?thesis
      by (simp add: registerEndpoint_nics registerEndpoint_heap)
  next
    case False
    have "\<exists>l'. primary (nics w n') p = Some l' \<and> r \<in> set l'"
    proof (cases "n' = n \<and> p = prot")
      case True
      with l have "l = primacy_insert peb (primary_list (nics w n) prot) (next_ref w)"
        by (simp add: registerEndpoint_nics primary_list_def)
      with r False have "r \<in> set (primary_list (nics w n) prot)"
        by (cases peb) (auto simp: primacy_insert_def)
      with True show ?thesis
        by (cases "primary (nics w n) prot") (auto simp: primary_list_def)
    next
      case False
      with l r show ?thesis
        by (auto simp: registerEndpoint_nics split: if_splits)
    qed
    then obtain l' where l': "primary (nics w n') p = Some l'" "r \<in> set l'" by blast
    with wf have base: "r < next_ref w \<and> nic (heap w r) = n' \<and> protocol (heap w r) = p
        \<and> endpoints (nics w n') (ep_ID (ep (heap w r))) = Some r"
      unfolding lists_wf_def by blast
    have "ep_ID (ep (heap w r)) \<noteq> ep_ID e" if "n' = n"
      using fresh [of r] l' that by (auto simp: listed_on_def)
    with base False show ?thesis
      by (auto simp: registerEndpoint_nics registerEndpoint_heap)
  qed
qed

lemma wf_addAddressLocked:
  assumes wf: "lists_wf w"
  shows "lists_wf (world_of (addAddressLocked w n prot addr peb replace))"
proof (cases "networkProtocols (stack w) prot")
  case None
  then show ?thesis using wf by (simp add: addAddressLocked_def)
next
  case (Some np)
  show ?thesis
  proof (cases "NewEndpoint np (nic_id (nics w n)) addr")
    case (Inl err)
    with Some wf show ?thesis by (simp add: addAddressLocked_def)
  next
    case (Inr e)
    show ?thesis
    proof (cases "endpoints (nics w n) (ep_ID e)")
      case None
      have "lists_wf (snd (registerEndpoint w n prot e peb))"
      proof (rule wf_registerEndpoint [OF wf])
        fix r assume "listed_on w n r"
        then have "endpoints (nics w n) (ep_ID (ep (heap w r))) = Some r"
          using wf unfolding lists_wf_def listed_on_def by blast
        with None show "ep_ID (ep (heap w r)) \<noteq> ep_ID e" by auto
      qed
      with Some Inr None show ?thesis by (simp add: addAddressLocked_def case_prod_beta)
    next
      case old: (Some old)
      show ?thesis
      proof (cases replace)
        case False
        with Some Inr old wf show ?thesis by (simp add: addAddressLocked_def)
      next
        case True
        have rm: "lists_wf (world_of (removeEndpointLocked w n old))"
          using wf by (rule wf_removeEndpointLocked)
        show ?thesis
        proof (cases "removeEndpointLocked w n old")
          case (Panics p w')
          with rm Some Inr old True show ?thesis by (simp add: addAddressLocked_def)
        next
          case (Returns u w')
          with rm have wf': "lists_wf w'" by simp
          have hp: "heap w' = heap w"
            using heap_removeEndpointLocked [of w n old] Returns by simp
          have "lists_wf (snd (registerEndpoint w' n prot e peb))"
          proof (rule wf_registerEndpoint [OF wf'])
            fix r assume li: "listed_on w' n r"
            then have "endpoints (nics w' n) (ep_ID (ep (heap w' r))) = Some r"
              using wf' unfolding lists_wf_def listed_on_def by blast
            then have reg: "endpoints (nics w n) (ep_ID (ep (heap w r))) = Some r"
              using removeEndpointLocked_registry [of w n old n "ep_ID (ep (heap w r))" r] Returns hp
              by simp
            show "ep_ID (ep (heap w' r)) \<noteq> ep_ID e"
            proof
              assume "ep_ID (ep (heap w' r)) = ep_ID e"
              with reg old hp have "r = old" by simp
              with li removeEndpointLocked_unlists [OF wf Returns] show False by simp
            qed
          qed
          with Returns Some Inr old True show ?thesis
            by (simp add: addAddressLocked_def case_prod_beta)
        qed
      qed
    qed
  qed
qed

lemma wf_addTemporary:
  assumes wf: "lists_wf w"
  shows "lists_wf (world_of (addTemporary w n prot addr peb))"
proof -
  have q: "lists_wf (world_of (addAddressLocked w n prot addr peb True))"
    using wf by (rule wf_addAddressLocked)
  show ?thesis
  proof (cases "addAddressLocked w n prot addr peb True")
    case (Panics p w')
    with q show ?thesis by (simp add: addTemporary_def)
  next
    case (Returns res w')
    with q have "lists_wf w'" by simp
    then have "lists_wf (upd_ref w' rf (\<lambda>R. R\<lparr>holdsInsertRef := False\<rparr>))" for rf
      by (rule wf_shape) simp
    with Returns \<open>lists_wf w'\<close> show ?thesis
      by (cases res) (simp_all add: addTemporary_def)
  qed
qed

lemma wf_lookupRef: "lists_wf w \<Longrightarrow> lists_wf (snd (lookupRef w n a))"
  by (erule wf_shape) simp

lemma wf_getRef:
  assumes wf: "lists_wf w"
  shows "lists_wf (world_of (getRef w n prot dst))"
proof -
  obtain r1 w1 where l1: "lookupRef w n dst = (r1, w1)" by (cases "lookupRef w n dst")
  obtain r2 w2 where l2: "lookupRef w1 n dst = (r2, w2)" by (cases "lookupRef w1 n dst")
  have q1: "lists_wf w1" using wf_lookupRef [OF wf, of n dst] l1 by simp
  have q2: "lists_wf w2" using wf_lookupRef [OF q1, of n dst] l2 by simp
  have q3: "lists_wf (world_of (addTemporary w2 n prot dst CanBePrimaryEndpoint))"
    using q2 by (rule wf_addTemporary)
  show ?thesis
    using l1 l2 q1 q2 q3
    by (cases r1; cases r2) (simp_all add: getRef_def)
qed

lemma wf_findEndpoint:
  assumes wf: "lists_wf w"
  shows "lists_wf (world_of (findEndpoint w n prot a peb))"
proof -
  obtain r1 w1 where l1: "lookupRef w n a = (r1, w1)" by (cases "lookupRef w n a")
  obtain r2 w2 where l2: "lookupRef w1 n a = (r2, w2)" by (cases "lookupRef w1 n a")
  have q1: "lists_wf w1" using wf_lookupRef [OF wf, of n a] l1 by simp
  have q2: "lists_wf w2" using wf_lookupRef [OF q1, of n a] l2 by simp
  have q3: "lists_wf (world_of (addTemporary w2 n prot a peb))"
    using q2 by (rule wf_addTemporary)
  show ?thesis
    using l1 l2 q1 q2 q3
    by (cases r1; cases r2) (simp_all add: findEndpoint_def)
qed

lemma wf_RemoveAddress:
  assumes wf: "lists_wf w"
  shows "lists_wf (world_of (RemoveAddress w n a))"
proof (cases "\<exists>r. endpoints (nics w n) a = Some r \<and> holdsInsertRef (heap w r)")
  case False
  then show ?thesis using wf by (simp add: RemoveAddress_bad)
next
  case True
  then obtain r where r: "endpoints (nics w n) a = Some r" "holdsInsertRef (heap w r)" by blast
  let ?w0 = "upd_ref w r (\<lambda>R. R\<lparr>holdsInsertRef := False\<rparr>)"
  have "lists_wf ?w0" using wf by (rule wf_shape) simp
  then have "lists_wf (world_of (decRef ?w0 r))" by (rule wf_decRef)
  then show ?thesis
    using r by (cases "decRef ?w0 r") (simp_all add: RemoveAddress_holder)
qed

lemma wf_AddAddressWithOptions:
  assumes wf: "lists_wf w"
  shows "lists_wf (world_of (AddAddressWithOptions w n prot a peb))"
proof -
  have "lists_wf (world_of (addAddressLocked w n prot a peb False))"
    using wf by (rule wf_addAddressLocked)
  then show ?thesis
    by (cases "addAddressLocked w n prot a peb False")
       (auto simp: AddAddressWithOptions_def split: sum.splits)
qed

lemma world_of_getMainNICAddress [simp]: "world_of (getMainNICAddress w n prot ks) = w"
  by (simp add: getMainNICAddress_eq split: option.splits)

lemma wf_forwardPacket:
  assumes wf: "lists_wf w"
  shows "lists_wf (world_of (forwardPacket w r dst prot vv))"
proof -
  obtain rf w1 where l: "lookupRef w (nic (heap w (route_ref r))) dst = (rf, w1)"
    by (cases "lookupRef w (nic (heap w (route_ref r))) dst")
  have q1: "lists_wf w1" using wf_lookupRef [OF wf, of "nic (heap w (route_ref r))" dst] l by simp
  then have e: "lists_wf (emit w1 ev)" for ev by (rule wf_shape) simp
  have "lists_wf (world_of (decRef (emit w1 ev) x))" for ev x
    using e by (rule wf_decRef)
  with l e show ?thesis
    by (cases rf) (simp_all add: forwardPacket_def Let_def)
qed




lemma wf_DeliverNetworkPacket:
  assumes wf: "lists_wf w"
  shows "lists_wf (world_of (DeliverNetworkPacket w n lep rl ll prot vv))"
proof (cases "networkProtocols (stack w) prot")
  case None
  then show ?thesis
    using wf by (simp add: DeliverNetworkPacket_unknown)
next
  case (Some np)
  show ?thesis
  proof (cases "int (length (First vv)) < MinimumPacketSize np")
    case True
    with Some show ?thesis
      using wf by (simp add: DeliverNetworkPacket_short)
  next
    case False
    let ?w0 = "countIPPacket np w"
    obtain src dst where pa: "ParseAddresses np (First vv) = (src, dst)"
      by (cases "ParseAddresses np (First vv)")
    have "lists_wf ?w0" using wf by (rule wf_shape) simp
    then have g: "lists_wf (world_of (getRef ?w0 n prot dst))" by (rule wf_getRef)
    show ?thesis
    proof (cases "getRef ?w0 n prot dst")
      case (Panics p w1)
      with g Some False pa show ?thesis by (simp add: DeliverNetworkPacket_def Let_def)
    next
      case (Returns res w1)
      with g have w1: "lists_wf w1" by simp
      show ?thesis
      proof (cases res)
        case (Some rf)
        have "lists_wf (emit w1 ev)" for ev using w1 by (rule wf_shape) simp
        then have "lists_wf (world_of (decRef (emit w1 ev) rf))" for ev by (rule wf_decRef)
        with Some Returns \<open>networkProtocols (stack w) prot = Some np\<close> False pa show ?thesis
          by (simp add: DeliverNetworkPacket_local)
      next
        case None
        have i: "lists_wf (inc_IP_InvalidAddressesReceived w1)"
          using w1 by (rule wf_shape) simp
        have f: "lists_wf (emit (world_of (forwardPacket w1 r dst prot vv)) ev)" for r ev
          using wf_forwardPacket [OF w1] by (rule wf_shape) simp
        show ?thesis
          using None Returns \<open>networkProtocols (stack w) prot = Some np\<close> False pa i f
          by (simp add: DeliverNetworkPacket_unresolved split: sum.splits)
      qed
    qed
  qed
qed


lemma wf_step: "lists_wf w \<Longrightarrow> lists_wf (world_of (step w x))"
proof (cases x)
  case (OpGetMainNICAddress n prot ks)
  assume "lists_wf w"
  then show ?thesis
    using OpGetMainNICAddress world_of_getMainNICAddress [of w n prot ks]
    by (cases "getMainNICAddress w n prot ks") simp_all
next
  case (OpFindEndpoint n prot a peb)
  assume "lists_wf w"
  then show ?thesis
    using OpFindEndpoint wf_findEndpoint [of w n prot a peb]
    by (cases "findEndpoint w n prot a peb") simp_all
next
  case (OpAddAddressLocked n prot a peb replace)
  assume "lists_wf w"
  then show ?thesis
    using OpAddAddressLocked wf_addAddressLocked [of w n prot a peb replace]
    by (cases "addAddressLocked w n prot a peb replace") simp_all
next
  case (OpAddAddress n prot a)
  assume "lists_wf w"
  then show ?thesis
    using OpAddAddress wf_AddAddressWithOptions [of w n prot a CanBePrimaryEndpoint]
    by (cases "AddAddress w n prot a") (simp_all add: AddAddress_def)
next
  case (OpAddAddressWithOptions n prot a peb)
  assume "lists_wf w"
  then show ?thesis
    using OpAddAddressWithOptions wf_AddAddressWithOptions [of w n prot a peb]
    by (cases "AddAddressWithOptions w n prot a peb") simp_all
next
  case (OpRemoveAddress n a)
  assume "lists_wf w"
  then show ?thesis
    using OpRemoveAddress wf_RemoveAddress [of w n a]
    by (cases "RemoveAddress w n a") simp_all
next
  case (OpGetRef n prot a)
  assume "lists_wf w"
  then show ?thesis
    using OpGetRef wf_getRef [of w n prot a]
    by (cases "getRef w n prot a") simp_all
next
  case (OpDeliverNetworkPacket n lep rl ll prot vv)
  assume "lists_wf w"
  then show ?thesis
    using OpDeliverNetworkPacket by (simp add: wf_DeliverNetworkPacket)
next
  case (OpDecRef r)
  assume "lists_wf w"
  then show ?thesis using OpDecRef by (simp add: wf_decRef)
next
  case (OpRemoveEndpoint r)
  assume "lists_wf w"
  then show ?thesis using OpRemoveEndpoint by (simp add: wf_removeEndpoint)
next
  case (OpRemoveEndpointLocked n r)
  assume "lists_wf w"
  then show ?thesis using OpRemoveEndpointLocked by (simp add: wf_removeEndpointLocked)
qed simp_all

lemma wf_run: "lists_wf w \<Longrightarrow> lists_wf (world_of (run w xs))"
proof (induction xs arbitrary: w)
  case Nil
  then show ?case by simp
next
  case (Cons x xs)
  have s: "lists_wf (world_of (step w x))" using Cons.prems by (rule wf_step)
  show ?case
  proof (cases "step w x")
    case (Panics p w')
    with s show ?thesis by simp
  next
    case (Returns u w')
    with s have "lists_wf w'" by simp
    then have "lists_wf (world_of (run w' xs))" by (rule Cons.IH)
    with Returns show ?thesis by simp
  qed
qed



lemma initial_wf: "initial w \<Longrightarrow> lists_wf w"
proof -
  assume i: "initial w"
  have "primary (nics w n) = Map.empty" for n
  proof -
    from i obtain ident lep dm where "nics w n = newNIC ident lep dm"
      unfolding initial_def by blast
    then show ?thesis by (simp add: newNIC_def)
  qed
  then show ?thesis by (simp add: lists_wf_def)
qed

lemma wf_primacy_in_registry: "lists_wf w \<Longrightarrow> primacy_in_registry w"
  unfolding primacy_in_registry_def
proof (intro allI impI)
  fix n r
  assume wf: "lists_wf w" and "listed_on w n r"
  then obtain prot l where "primary (nics w n) prot = Some l" "r \<in> set l"
    by (auto simp: listed_on_def)
  with wf have "endpoints (nics w n) (ep_ID (ep (heap w r))) = Some r"
    unfolding lists_wf_def by blast
  then show "r \<in> ran (endpoints (nics w n))" by (rule ranI)
qed

lemma AddAddressWithOptions_never:
  assumes wf: "lists_wf w"
    and ret: "AddAddressWithOptions w n prot a NeverPrimaryEndpoint = Returns None w'"
  shows "\<exists>r. r \<in> ran (endpoints (nics w' n)) \<and> \<not> listed_on w' n r"
proof -
  obtain np where np: "networkProtocols (stack w) prot = Some np"
    using ret by (cases "networkProtocols (stack w) prot")
      (simp_all add: AddAddressWithOptions_def addAddressLocked_def)
  obtain e where e: "NewEndpoint np (nic_id (nics w n)) a = Inr e"
    using ret np by (cases "NewEndpoint np (nic_id (nics w n)) a")
      (simp_all add: AddAddressWithOptions_def addAddressLocked_def)
  have none: "endpoints (nics w n) (ep_ID e) = None"
    using ret np e by (cases "endpoints (nics w n) (ep_ID e)")
      (simp_all add: AddAddressWithOptions_def addAddressLocked_def)
  have w': "w' = snd (registerEndpoint w n prot e NeverPrimaryEndpoint)"
    using ret np e none
    by (simp add: AddAddressWithOptions_def addAddressLocked_def case_prod_beta)
  have reg: "endpoints (nics w' n) (ep_ID e) = Some (next_ref w)"
    by (simp add: w' registerEndpoint_nics)
  have "\<not> listed_on w' n (next_ref w)"
  proof
    assume "listed_on w' n (next_ref w)"
    then obtain p l where l: "primary (nics w' n) p = Some l" "next_ref w \<in> set l"
      by (auto simp: listed_on_def)
    then have "\<exists>l'. primary (nics w n) p = Some l' \<and> next_ref w \<in> set l'"
      by (cases "primary (nics w n) prot")
         (auto simp: w' registerEndpoint_nics primacy_insert_def split: if_splits)
    then show False
      using wf unfolding lists_wf_def by (metis less_irrefl)
  qed
  with reg show ?thesis by (meson ranI)
qed

text \<open>
  C9.  From a world of fresh interfaces, whatever operations are run in whatever
  order, in the world reached (also the one a panic leaves) every binding listed in a
  primacy list of an interface is in that interface's registry.  Each single operation
  preserves the invariant \<open>lists_wf\<close> that carries this.  The converse does not hold:
  binding an address as never primary succeeds with a binding that is in the registry
  and in no primacy list of the interface.
\<close>

theorem primacy_lists_in_registry:
  "(initial w0 \<longrightarrow> primacy_in_registry (world_of (run w0 xs)))
   \<and> (lists_wf w \<longrightarrow>
        lists_wf (world_of (step w x)) \<and> primacy_in_registry (world_of (step w x)))
   \<and> (initial w0
        \<and> AddAddressWithOptions (world_of (run w0 xs)) n prot a NeverPrimaryEndpoint
            = Returns None w' \<longrightarrow>
        primacy_in_registry w'
        \<and> (\<exists>r. r \<in> ran (endpoints (nics w' n)) \<and> \<not> listed_on w' n r))"
proof (intro conjI impI)
  assume "initial w0"
  then show "primacy_in_registry (world_of (run w0 xs))"
    by (intro wf_primacy_in_registry wf_run initial_wf)
next
  assume "lists_wf w"
  then show "lists_wf (world_of (step w x))" by (rule wf_step)
  then show "primacy_in_registry (world_of (step w x))" by (rule wf_primacy_in_registry)
next
  assume a: "initial w0
        \<and> AddAddressWithOptions (world_of (run w0 xs)) n prot a NeverPrimaryEndpoint
            = Returns None w'"
  then have wf: "lists_wf (world_of (run w0 xs))"
    by (intro wf_run initial_wf) simp
  from wf_AddAddressWithOptions [OF wf, of n prot a NeverPrimaryEndpoint] a
  show "primacy_in_registry w'" by (simp add: wf_primacy_in_registry)
  from AddAddressWithOptions_never [OF wf] a
  show "\<exists>r. r \<in> ran (endpoints (nics w' n)) \<and> \<not> listed_on w' n r" by blast
qed

lemma ex_world_initial: "initial ex_world"
  unfolding initial_def ex_world_def by auto

lemma ex_ops_run:
  "\<exists>w. run ex_world ex_ops = Returns () w
     \<and> endpoints (nics w 0) = [ex_addr2 \<mapsto> 1]
     \<and> primary (nics w 0) = [IPv4ProtocolNumber \<mapsto> []]
     \<and> trace w = [EvClose 0]"
  by (simp add: ex_ops_def ex_defs ex_addr2_def RemoveAddress_def decRef_def fun_upd_twist)

text \<open>
  Witness for C9: the run \<open>ex_ops\<close> ends with \<open>ex_addr2\<close> registered and the primacy
  list of its protocol empty.
\<close>

theorem primacy_lists_in_registry_witness:
  "primacy_in_registry (world_of (run ex_world ex_ops))
   \<and> (\<exists>w. run ex_world ex_ops = Returns () w
         \<and> endpoints (nics w 0) = [ex_addr2 \<mapsto> 1]
         \<and> primary (nics w 0) = [IPv4ProtocolNumber \<mapsto> []])
   \<and> (\<exists>w' r. AddAddressWithOptions (world_of (run ex_world []))
                 0 IPv4ProtocolNumber ex_addr2 NeverPrimaryEndpoint = Returns None w'
         \<and> primacy_in_registry w'
         \<and> r \<in> ran (endpoints (nics w' 0)) \<and> \<not> listed_on w' 0 r)"
proof -
  note T = primacy_lists_in_registry
  have a: "primacy_in_registry (world_of (run ex_world ex_ops))"
    using T [of ex_world ex_ops] ex_world_initial by blast
  have "\<exists>w'. AddAddressWithOptions ex_world 0 IPv4ProtocolNumber ex_addr2 NeverPrimaryEndpoint
             = Returns None w'"
    by (simp add: ex_defs)
  then obtain w' where w': "AddAddressWithOptions (world_of (run ex_world []))
        0 IPv4ProtocolNumber ex_addr2 NeverPrimaryEndpoint = Returns None w'"
    by auto
  then have "primacy_in_registry w'
        \<and> (\<exists>r. r \<in> ran (endpoints (nics w' 0)) \<and> \<not> listed_on w' 0 r)"
    using T [of ex_world "[]" _ _ 0 IPv4ProtocolNumber ex_addr2 w'] ex_world_initial by blast
  with w' have c: "\<exists>w' r. AddAddressWithOptions (world_of (run ex_world []))
                 0 IPv4ProtocolNumber ex_addr2 NeverPrimaryEndpoint = Returns None w'
         \<and> primacy_in_registry w'
         \<and> r \<in> ran (endpoints (nics w' 0)) \<and> \<not> listed_on w' 0 r"
    by blast
  show ?thesis
    using a c ex_ops_run by blast
qed

section \<open>Closing at most once\<close>

lemma closes_wf_cshape: "cshape w' = cshape w \<Longrightarrow> closes_wf w' = closes_wf w"
proof -
  assume s: "cshape w' = cshape w"
  then have a: "\<And>n. endpoints (nics w' n) = endpoints (nics w n)"
    "\<And>r. ep (heap w' r) = ep (heap w r)" "\<And>r. nic (heap w' r) = nic (heap w r)"
    "next_ref w' = next_ref w" "\<And>r. closes w' r = closes w r"
    by (auto simp: cshape_def shape_def fun_eq_iff)
  show ?thesis
    unfolding closes_wf_def a ..
qed

lemma cwf_cshape: "closes_wf w \<Longrightarrow> cshape w' = cshape w \<Longrightarrow> closes_wf w'"
  using closes_wf_cshape [of w' w] by blast

lemma closes_fields [simp]:
  "closes (upd_ref w r g) = closes w"
  "closes (upd_nic w n f) = closes w"
  "closes (upd_stats w h) = closes w"
  by (simp_all add: closes_def fun_eq_iff)

lemma closes_emit: "closes (emit w e) r = closes w r + (if e = EvClose r then 1 else 0)"
  by (simp add: closes_def)

lemma closes_emit_other [simp]: "\<not> is_close e \<Longrightarrow> closes (emit w e) = closes w"
  by (cases e) (auto simp: closes_def fun_eq_iff)

lemma cshape_simple [simp]:
  "cshape (upd_ref w r (\<lambda>R. R\<lparr>refs := v R\<rparr>)) = cshape w"
  "cshape (upd_ref w r (\<lambda>R. R\<lparr>holdsInsertRef := b R\<rparr>)) = cshape w"
  "cshape (upd_stats w h) = cshape w"
  "\<not> is_close e \<Longrightarrow> cshape (emit w e) = cshape w"
  by (simp_all add: cshape_def)

lemma cshape_inc [simp]:
  "cshape (inc_UnknownProtocolRcvdPackets w) = cshape w"
  "cshape (inc_MalformedRcvdPackets w) = cshape w"
  "cshape (inc_IP_PacketsReceived w) = cshape w"
  "cshape (inc_IP_InvalidAddressesReceived w) = cshape w"
  by (simp_all add: inc_UnknownProtocolRcvdPackets_def inc_MalformedRcvdPackets_def
      inc_IP_PacketsReceived_def inc_IP_InvalidAddressesReceived_def)

lemma cshape_countIPPacket [simp]: "cshape (countIPPacket np w) = cshape w"
  by (simp add: countIPPacket_def)

lemma cshape_tryIncRef [simp]: "cshape (snd (tryIncRef w r)) = cshape w"
  by (simp add: tryIncRef_def Let_def)

lemma cshape_lookupRef [simp]: "cshape (snd (lookupRef w n a)) = cshape w"
  by (simp add: lookupRef_def case_prod_beta split: option.splits)

lemma cshape_firstPrimary [simp]: "cshape (snd (firstPrimary w rs)) = cshape w"
proof (induction rs arbitrary: w)
  case Nil
  then show ?case by simp
next
  case (Cons r rs)
  have "cshape (snd (firstPrimary (snd (tryIncRef w r)) rs)) = cshape w"
    by (simp add: Cons.IH)
  then show ?case
    by (simp add: Let_def case_prod_beta Cons.IH)
qed

lemma cshape_primaryEndpoint [simp]: "cshape (snd (primaryEndpoint w n prot)) = cshape w"
  by (simp add: primaryEndpoint_def split: option.splits)

lemma closes_flags [simp]:
  "closes (setPromiscuousMode w n b) = closes w"
  "closes (setSpoofing w n b) = closes w"
  "closes (AddSubnet w n prot sn) = closes w"
  "closes (RemoveSubnet w n sn) = closes w"
  by (simp_all add: setPromiscuousMode_def setSpoofing_def AddSubnet_def RemoveSubnet_def)

lemma cshape_flags [simp]:
  "cshape (setPromiscuousMode w n b) = cshape w"
  "cshape (setSpoofing w n b) = cshape w"
  "cshape (AddSubnet w n prot sn) = cshape w"
  "cshape (RemoveSubnet w n sn) = cshape w"
  by (simp_all add: cshape_def)

lemma cshape_counts [simp]:
  "cshape (incRef w r) = cshape w"
  "cshape (snd (AddInt32_refs w r d)) = cshape w"
  by (simp_all add: incRef_def AddInt32_refs_def)

lemma cshape_DeliverTransportPacket [simp]:
  "cshape (DeliverTransportPacket w n r prot vv) = cshape w"
proof -
  have u: "cshape (unknownDestination w0 tp r i vv) = cshape w0" for w0 tp i
    by (simp add: unknownDestination_def Let_def)
  show ?thesis
  proof (cases "transportProtocols (stack w) prot")
    case None
    then show ?thesis by (simp add: DeliverTransportPacket_def)
  next
    case (Some state)
    show ?thesis
    proof (cases "ParsePorts (proto state) (First vv)")
      case (Inl err)
      with Some show ?thesis by (simp add: DeliverTransportPacket_def Let_def)
    next
      case (Inr ports)
      obtain sp dp where "ports = (sp, dp)" by (cases ports)
      with Some Inr show ?thesis
        by (cases "defaultHandler state")
           (simp_all add: DeliverTransportPacket_def Let_def u)
    qed
  qed
qed

lemma cshape_DeliverTransportControlPacket [simp]:
  "cshape (DeliverTransportControlPacket w n localAddr remoteAddr net tprot typ extra vv) = cshape w"
  by (simp add: DeliverTransportControlPacket_def Let_def
      split: option.splits sum.splits prod.splits)

lemmas cwf_same [simp] =
  closes_wf_cshape [OF cshape_simple(1)] closes_wf_cshape [OF cshape_simple(2)]
  closes_wf_cshape [OF cshape_simple(3)] closes_wf_cshape [OF cshape_simple(4)]
  closes_wf_cshape [OF cshape_inc(1)] closes_wf_cshape [OF cshape_inc(2)]
  closes_wf_cshape [OF cshape_inc(3)] closes_wf_cshape [OF cshape_inc(4)]
  closes_wf_cshape [OF cshape_countIPPacket] closes_wf_cshape [OF cshape_tryIncRef]
  closes_wf_cshape [OF cshape_lookupRef] closes_wf_cshape [OF cshape_primaryEndpoint]
  closes_wf_cshape [OF cshape_flags(1)] closes_wf_cshape [OF cshape_flags(2)]
  closes_wf_cshape [OF cshape_flags(3)] closes_wf_cshape [OF cshape_flags(4)]
  closes_wf_cshape [OF cshape_counts(1)] closes_wf_cshape [OF cshape_counts(2)]
  closes_wf_cshape [OF cshape_DeliverTransportPacket]
  closes_wf_cshape [OF cshape_DeliverTransportControlPacket]

lemma cwf_removeEndpointLocked:
  assumes wf: "closes_wf w"
  shows "closes_wf (world_of (removeEndpointLocked w n r))"
proof (cases "endpoints (nics w n) (ep_ID (ep (heap w r))) = Some r")
  case False
  then show ?thesis using wf by (simp add: removeEndpointLocked_not_registered)
next
  case reg: True
  let ?id = "ep_ID (ep (heap w r))"
  from wf reg have r0: "r < next_ref w" "nic (heap w r) = n" "closes w r = 0"
    unfolding closes_wf_def by blast+
  have only: "n' = n \<and> k = ?id" if "endpoints (nics w n') k = Some r" for n' k
    using wf that r0 unfolding closes_wf_def by blast
  show ?thesis
  proof (cases "holdsInsertRef (heap w r)")
    case True
    with reg wf show ?thesis by (simp add: removeEndpointLocked_panics)
  next
    case nh: False
    let ?w1 = "upd_nic w n (\<lambda>N. N\<lparr>endpoints := (endpoints N)(?id := None)\<rparr>)"
    have w1: "closes_wf ?w1"
      using wf unfolding closes_wf_def by (auto split: if_splits)
    show ?thesis
    proof (cases "primary (nics w n) (protocol (heap w r))")
      case None
      then have "removeEndpointLocked w n r = Panics NilListDereference ?w1"
        using reg nh by (simp add: removeEndpointLocked_def Let_def)
      with w1 show ?thesis by simp
    next
      case (Some l0)
      let ?w' = "emit (upd_nic w n (\<lambda>N. N\<lparr>endpoints := (endpoints N)(?id := None),
                    primary := (primary N)(protocol (heap w r) \<mapsto> removeAll r l0)\<rparr>)) (EvClose r)"
      have eq: "removeEndpointLocked w n r = Returns () ?w'"
        using reg nh Some by (rule removeEndpointLocked_teardown)
      have "closes_wf ?w'"
        unfolding closes_wf_def
      proof (rule conjI [OF _ conjI]; intro allI impI)
        fix n' k r'
        assume e: "endpoints (nics ?w' n') k = Some r'"
        then have e0: "endpoints (nics w n') k = Some r'" and nk: "\<not> (n' = n \<and> k = ?id)"
          by (auto split: if_splits)
        with only have "r' \<noteq> r" by blast
        with wf e0 show "r' < next_ref ?w' \<and> k = ep_ID (ep (heap ?w' r')) \<and> nic (heap ?w' r') = n'
            \<and> closes ?w' r' = 0"
          unfolding closes_wf_def by (simp add: closes_emit)
      next
        fix r'
        show "closes ?w' r' \<le> 1"
          using wf r0(3) unfolding closes_wf_def by (auto simp: closes_emit)
      next
        fix r'
        assume "next_ref ?w' \<le> r'"
        then show "closes ?w' r' = 0"
          using wf r0(1) unfolding closes_wf_def by (auto simp: closes_emit)
      qed
      then show ?thesis by (simp add: eq)
    qed
  qed
qed

lemma cwf_registerEndpoint:
  assumes wf: "closes_wf w"
  shows "closes_wf (snd (registerEndpoint w n prot e peb))"
proof -
  let ?w' = "snd (registerEndpoint w n prot e peb)"
  have c: "closes ?w' = closes w"
    by (simp add: closes_def fun_eq_iff)
  show ?thesis
    unfolding closes_wf_def
  proof (rule conjI [OF _ conjI]; intro allI impI)
    fix n' k r
    assume e: "endpoints (nics ?w' n') k = Some r"
    show "r < next_ref ?w' \<and> k = ep_ID (ep (heap ?w' r)) \<and> nic (heap ?w' r) = n'
            \<and> closes ?w' r = 0"
    proof (cases "n' = n \<and> k = ep_ID e")
      case True
      with e have "r = next_ref w" by (simp add: registerEndpoint_nics)
      with True wf show ?thesis
        unfolding closes_wf_def by (simp add: c registerEndpoint_heap)
    next
      case False
      with e have e0: "endpoints (nics w n') k = Some r"
        by (auto simp: registerEndpoint_nics split: if_splits)
      with wf have "r < next_ref w \<and> k = ep_ID (ep (heap w r)) \<and> nic (heap w r) = n'
            \<and> closes w r = 0"
        unfolding closes_wf_def by blast
      then show ?thesis
        by (simp add: c registerEndpoint_heap)
    qed
  next
    fix r show "closes ?w' r \<le> 1"
      using wf unfolding closes_wf_def by (simp add: c)
  next
    fix r assume "next_ref ?w' \<le> r"
    then show "closes ?w' r = 0"
      using wf unfolding closes_wf_def by (simp add: c)
  qed
qed

lemma cwf_decRef: "closes_wf w \<Longrightarrow> closes_wf (world_of (decRef w r))"
proof -
  assume wf: "closes_wf w"
  let ?w1 = "upd_ref w r (\<lambda>R. R\<lparr>refs := refs R - 1\<rparr>)"
  have w1: "closes_wf ?w1" using wf by simp
  then have "closes_wf (world_of (removeEndpointLocked ?w1 (nic (heap ?w1 r)) r))"
    by (rule cwf_removeEndpointLocked)
  with w1 show ?thesis
    by (simp add: decRef_unfold Let_def removeEndpoint_def)
qed

lemma cwf_addAddressLocked:
  assumes wf: "closes_wf w"
  shows "closes_wf (world_of (addAddressLocked w n prot addr peb replace))"
proof (cases "networkProtocols (stack w) prot")
  case None
  then show ?thesis using wf by (simp add: addAddressLocked_def)
next
  case (Some np)
  show ?thesis
  proof (cases "NewEndpoint np (nic_id (nics w n)) addr")
    case (Inl err)
    with Some wf show ?thesis by (simp add: addAddressLocked_def)
  next
    case (Inr e)
    show ?thesis
    proof (cases "endpoints (nics w n) (ep_ID e)")
      case None
      with Some Inr show ?thesis
        using cwf_registerEndpoint [OF wf, of n prot e peb]
        by (simp add: addAddressLocked_def case_prod_beta)
    next
      case old: (Some old)
      show ?thesis
      proof (cases replace)
        case False
        with Some Inr old wf show ?thesis by (simp add: addAddressLocked_def)
      next
        case True
        have rm: "closes_wf (world_of (removeEndpointLocked w n old))"
          using wf by (rule cwf_removeEndpointLocked)
        show ?thesis
        proof (cases "removeEndpointLocked w n old")
          case (Panics p w')
          with rm Some Inr old True show ?thesis by (simp add: addAddressLocked_def)
        next
          case (Returns u w')
          with rm have "closes_wf w'" by simp
          then have "closes_wf (snd (registerEndpoint w' n prot e peb))"
            by (rule cwf_registerEndpoint)
          with Returns Some Inr old True show ?thesis
            by (simp add: addAddressLocked_def case_prod_beta)
        qed
      qed
    qed
  qed
qed

lemma cwf_addTemporary:
  assumes wf: "closes_wf w"
  shows "closes_wf (world_of (addTemporary w n prot addr peb))"
proof -
  have q: "closes_wf (world_of (addAddressLocked w n prot addr peb True))"
    using wf by (rule cwf_addAddressLocked)
  show ?thesis
  proof (cases "addAddressLocked w n prot addr peb True")
    case (Panics p w')
    with q show ?thesis by (simp add: addTemporary_def)
  next
    case (Returns res w')
    with q have "closes_wf w'" by simp
    with Returns show ?thesis
      by (cases res) (simp_all add: addTemporary_def)
  qed
qed

lemma cwf_getRef:
  assumes wf: "closes_wf w"
  shows "closes_wf (world_of (getRef w n prot dst))"
proof -
  obtain r1 w1 where l1: "lookupRef w n dst = (r1, w1)" by (cases "lookupRef w n dst")
  obtain r2 w2 where l2: "lookupRef w1 n dst = (r2, w2)" by (cases "lookupRef w1 n dst")
  have q1: "closes_wf w1" using cwf_same(11) [of w n dst] wf l1 by simp
  have q2: "closes_wf w2" using cwf_same(11) [of w1 n dst] q1 l2 by simp
  have q3: "closes_wf (world_of (addTemporary w2 n prot dst CanBePrimaryEndpoint))"
    using q2 by (rule cwf_addTemporary)
  show ?thesis
    using l1 l2 q1 q2 q3
    by (cases r1; cases r2) (simp_all add: getRef_def)
qed

lemma cwf_findEndpoint:
  assumes wf: "closes_wf w"
  shows "closes_wf (world_of (findEndpoint w n prot a peb))"
proof -
  obtain r1 w1 where l1: "lookupRef w n a = (r1, w1)" by (cases "lookupRef w n a")
  obtain r2 w2 where l2: "lookupRef w1 n a = (r2, w2)" by (cases "lookupRef w1 n a")
  have q1: "closes_wf w1" using cwf_same(11) [of w n a] wf l1 by simp
  have q2: "closes_wf w2" using cwf_same(11) [of w1 n a] q1 l2 by simp
  have q3: "closes_wf (world_of (addTemporary w2 n prot a peb))"
    using q2 by (rule cwf_addTemporary)
  show ?thesis
    using l1 l2 q1 q2 q3
    by (cases r1; cases r2) (simp_all add: findEndpoint_def)
qed

lemma cwf_RemoveAddress:
  assumes wf: "closes_wf w"
  shows "closes_wf (world_of (RemoveAddress w n a))"
proof (cases "\<exists>r. endpoints (nics w n) a = Some r \<and> holdsInsertRef (heap w r)")
  case False
  then show ?thesis using wf by (simp add: RemoveAddress_bad)
next
  case True
  then obtain r where r: "endpoints (nics w n) a = Some r" "holdsInsertRef (heap w r)" by blast
  let ?w0 = "upd_ref w r (\<lambda>R. R\<lparr>holdsInsertRef := False\<rparr>)"
  have "closes_wf ?w0" using wf by simp
  then have "closes_wf (world_of (decRef ?w0 r))" by (rule cwf_decRef)
  then show ?thesis
    using r by (cases "decRef ?w0 r") (simp_all add: RemoveAddress_holder)
qed

lemma cwf_AddAddressWithOptions:
  assumes wf: "closes_wf w"
  shows "closes_wf (world_of (AddAddressWithOptions w n prot a peb))"
proof -
  have "closes_wf (world_of (addAddressLocked w n prot a peb False))"
    using wf by (rule cwf_addAddressLocked)
  then show ?thesis
    by (cases "addAddressLocked w n prot a peb False")
       (auto simp: AddAddressWithOptions_def split: sum.splits)
qed

lemma cwf_forwardPacket:
  assumes wf: "closes_wf w"
  shows "closes_wf (world_of (forwardPacket w r dst prot vv))"
proof -
  obtain rf w1 where l: "lookupRef w (nic (heap w (route_ref r))) dst = (rf, w1)"
    by (cases "lookupRef w (nic (heap w (route_ref r))) dst")
  have q1: "closes_wf w1"
    using cwf_same(11) [of w "nic (heap w (route_ref r))" dst] wf l by simp
  have h: "closes_wf (world_of (decRef (emit w1 (EvHandlePacket x r vv)) x))" for x
    using q1 by (intro cwf_decRef) simp
  with l q1 show ?thesis
    by (cases rf) (simp_all add: forwardPacket_def Let_def)
qed

lemma cwf_DeliverNetworkPacket:
  assumes wf: "closes_wf w"
  shows "closes_wf (world_of (DeliverNetworkPacket w n lep rl ll prot vv))"
proof (cases "networkProtocols (stack w) prot")
  case None
  then show ?thesis
    using wf by (simp add: DeliverNetworkPacket_unknown)
next
  case (Some np)
  show ?thesis
  proof (cases "int (length (First vv)) < MinimumPacketSize np")
    case True
    with Some show ?thesis
      using wf by (simp add: DeliverNetworkPacket_short)
  next
    case False
    let ?w0 = "countIPPacket np w"
    obtain src dst where pa: "ParseAddresses np (First vv) = (src, dst)"
      by (cases "ParseAddresses np (First vv)")
    have "closes_wf ?w0" using wf by simp
    then have g: "closes_wf (world_of (getRef ?w0 n prot dst))" by (rule cwf_getRef)
    show ?thesis
    proof (cases "getRef ?w0 n prot dst")
      case (Panics p w1)
      with g Some False pa show ?thesis by (simp add: DeliverNetworkPacket_def Let_def)
    next
      case (Returns res w1)
      with g have w1: "closes_wf w1" by simp
      show ?thesis
      proof (cases res)
        case (Some rf)
        have "closes_wf (world_of (decRef (emit w1 (EvHandlePacket rf rt vv)) rf))" for rt
          using w1 by (intro cwf_decRef) simp
        with Some Returns \<open>networkProtocols (stack w) prot = Some np\<close> False pa show ?thesis
          by (simp add: DeliverNetworkPacket_local)
      next
        case None
        have i: "closes_wf (inc_IP_InvalidAddressesReceived w1)"
          using w1 by simp
        have f: "closes_wf (emit (world_of (forwardPacket w1 r dst prot vv)) (EvRelease r))" for r
          using cwf_forwardPacket [OF w1] by simp
        show ?thesis
          using None Returns \<open>networkProtocols (stack w) prot = Some np\<close> False pa i f
          by (simp add: DeliverNetworkPacket_unresolved split: sum.splits)
      qed
    qed
  qed
qed

lemma cwf_step: "closes_wf w \<Longrightarrow> closes_wf (world_of (step w x))"
proof (cases x)
  case (OpGetMainNICAddress n prot ks)
  assume "closes_wf w"
  then show ?thesis
    using OpGetMainNICAddress world_of_getMainNICAddress [of w n prot ks]
    by (cases "getMainNICAddress w n prot ks") simp_all
next
  case (OpFindEndpoint n prot a peb)
  assume "closes_wf w"
  then show ?thesis
    using OpFindEndpoint cwf_findEndpoint [of w n prot a peb]
    by (cases "findEndpoint w n prot a peb") simp_all
next
  case (OpAddAddressLocked n prot a peb replace)
  assume "closes_wf w"
  then show ?thesis
    using OpAddAddressLocked cwf_addAddressLocked [of w n prot a peb replace]
    by (cases "addAddressLocked w n prot a peb replace") simp_all
next
  case (OpAddAddress n prot a)
  assume "closes_wf w"
  then show ?thesis
    using OpAddAddress cwf_AddAddressWithOptions [of w n prot a CanBePrimaryEndpoint]
    by (cases "AddAddress w n prot a") (simp_all add: AddAddress_def)
next
  case (OpAddAddressWithOptions n prot a peb)
  assume "closes_wf w"
  then show ?thesis
    using OpAddAddressWithOptions cwf_AddAddressWithOptions [of w n prot a peb]
    by (cases "AddAddressWithOptions w n prot a peb") simp_all
next
  case (OpRemoveAddress n a)
  assume "closes_wf w"
  then show ?thesis
    using OpRemoveAddress cwf_RemoveAddress [of w n a]
    by (cases "RemoveAddress w n a") simp_all
next
  case (OpGetRef n prot a)
  assume "closes_wf w"
  then show ?thesis
    using OpGetRef cwf_getRef [of w n prot a]
    by (cases "getRef w n prot a") simp_all
next
  case (OpDeliverNetworkPacket n lep rl ll prot vv)
  assume "closes_wf w"
  then show ?thesis
    using OpDeliverNetworkPacket by (simp add: cwf_DeliverNetworkPacket)
next
  case (OpDecRef r)
  assume "closes_wf w"
  then show ?thesis using OpDecRef by (simp add: cwf_decRef)
next
  case (OpRemoveEndpoint r)
  assume "closes_wf w"
  then show ?thesis using OpRemoveEndpoint by (simp add: removeEndpoint_def cwf_removeEndpointLocked)
next
  case (OpRemoveEndpointLocked n r)
  assume "closes_wf w"
  then show ?thesis using OpRemoveEndpointLocked by (simp add: cwf_removeEndpointLocked)
qed simp_all

lemma cwf_run: "closes_wf w \<Longrightarrow> closes_wf (world_of (run w xs))"
proof (induction xs arbitrary: w)
  case Nil
  then show ?case by simp
next
  case (Cons x xs)
  have s: "closes_wf (world_of (step w x))" using Cons.prems by (rule cwf_step)
  show ?case
  proof (cases "step w x")
    case (Panics p w')
    with s show ?thesis by simp
  next
    case (Returns u w')
    with s have "closes_wf w'" by simp
    then have "closes_wf (world_of (run w' xs))" by (rule Cons.IH)
    with Returns show ?thesis by simp
  qed
qed

lemma initial_cwf: "initial w \<Longrightarrow> trace w = [] \<Longrightarrow> closes_wf w"
proof -
  assume i: "initial w" and t: "trace w = []"
  have "endpoints (nics w n) = Map.empty" for n
  proof -
    from i obtain ident lep dm where "nics w n = newNIC ident lep dm"
      unfolding initial_def by blast
    then show ?thesis by (simp add: newNIC_def)
  qed
  with t show ?thesis by (simp add: closes_wf_def closes_def)
qed

lemma closed_at_most_once:
  "initial w0 \<Longrightarrow> trace w0 = [] \<Longrightarrow> closes (world_of (run w0 xs)) r \<le> 1"
proof -
  assume "initial w0" "trace w0 = []"
  then have "closes_wf (world_of (run w0 xs))"
    by (intro cwf_run initial_cwf)
  then show ?thesis by (simp add: closes_wf_def)
qed

section \<open>C1: the decrement that reaches zero\<close>

text \<open>
  C1, as amended.  For a binding that is still the one registered under its id, the
  decrement that brings the count from one to zero tears it down once: the registry
  entry is deleted, the binding leaves its protocol's primacy list, a single \<open>Close\<close>
  is emitted, and the binding is no longer registered, so no later decrement tears it
  down again; if its registration bit is still set the decrement panics instead.  For a
  binding that is not registered (its entry was replaced or removed) the decrement
  does nothing beyond the count, whatever the count, and so does a decrement that does
  not reach zero.  In every run of operations from fresh interfaces and an empty
  trace, with the decrement and its cleanup also taken as separate steps, no binding's
  endpoint is closed more than once.
\<close>

theorem decRef_zero_teardown:
  "(refs (heap w r) = 1 \<and> registered w r \<and> \<not> holdsInsertRef (heap w r)
      \<and> primary (nics w (nic (heap w r))) (protocol (heap w r)) = Some l \<longrightarrow>
      (\<exists>w'. decRef w r = Returns () w'
         \<and> trace w' = trace w @ [EvClose r]
         \<and> endpoints (nics w' (nic (heap w r))) (ep_ID (ep (heap w r))) = None
         \<and> primary (nics w' (nic (heap w r))) (protocol (heap w r)) = Some (removeAll r l)
         \<and> r \<notin> set (removeAll r l)
         \<and> \<not> registered w' r))
   \<and> (refs (heap w r) = 1 \<and> registered w r \<and> holdsInsertRef (heap w r) \<longrightarrow>
      (\<exists>w'. decRef w r = Panics RefCountDroppedBeforeRemoved w' \<and> trace w' = trace w))
   \<and> (\<not> registered w r \<or> refs (heap w r) \<noteq> 1 \<longrightarrow>
      (\<exists>w'. decRef w r = Returns () w' \<and> trace w' = trace w \<and> nics w' = nics w))
   \<and> (\<not> registered w r \<longrightarrow> removeEndpoint w r = Returns () w)
   \<and> (initial w0 \<and> trace w0 = [] \<longrightarrow> closes (world_of (run w0 xs)) r' \<le> 1)"
proof (intro conjI impI)
  assume a: "refs (heap w r) = 1 \<and> registered w r \<and> \<not> holdsInsertRef (heap w r)
      \<and> primary (nics w (nic (heap w r))) (protocol (heap w r)) = Some l"
  show "\<exists>w'. decRef w r = Returns () w'
         \<and> trace w' = trace w @ [EvClose r]
         \<and> endpoints (nics w' (nic (heap w r))) (ep_ID (ep (heap w r))) = None
         \<and> primary (nics w' (nic (heap w r))) (protocol (heap w r)) = Some (removeAll r l)
         \<and> r \<notin> set (removeAll r l)
         \<and> \<not> registered w' r"
    using a by (simp add: decRef_teardown registered_def)
next
  assume "refs (heap w r) = 1 \<and> registered w r \<and> holdsInsertRef (heap w r)"
  then show "\<exists>w'. decRef w r = Panics RefCountDroppedBeforeRemoved w' \<and> trace w' = trace w"
    by (simp add: decRef_panics)
next
  assume "\<not> registered w r \<or> refs (heap w r) \<noteq> 1"
  then show "\<exists>w'. decRef w r = Returns () w' \<and> trace w' = trace w \<and> nics w' = nics w"
    by (simp add: decRef_no_teardown)
next
  assume "\<not> registered w r"
  then show "removeEndpoint w r = Returns () w"
    by (rule removeEndpoint_not_registered)
next
  assume "initial w0 \<and> trace w0 = []"
  then show "closes (world_of (run w0 xs)) r' \<le> 1"
    using closed_at_most_once [of w0 xs r'] by blast
qed

text \<open>
  Witness for C1: the temporary binding of \<open>ex_temp\<close> is torn down by its borrower's
  release, the bound address of \<open>ex_bound\<close> panics when its count is dropped with the
  registration bit set, and the replaced binding of \<open>ex_replaced\<close> is left alone.
\<close>

theorem decRef_zero_teardown_witness:
  "(\<exists>w'. decRef ex_temp 0 = Returns () w' \<and> trace w' = [EvClose 0]
       \<and> endpoints (nics w' 0) ex_addr = None
       \<and> primary (nics w' 0) IPv4ProtocolNumber = Some [])
   \<and> (\<exists>w'. decRef ex_bound 0 = Panics RefCountDroppedBeforeRemoved w' \<and> trace w' = [])
   \<and> removeEndpoint ex_replaced 0 = Returns () ex_replaced
   \<and> closes (world_of (run ex_world ex_ops)) 0 \<le> 1"
proof -
  have a: "refs (heap ex_temp 0) = 1 \<and> registered ex_temp 0 \<and> \<not> holdsInsertRef (heap ex_temp 0)
      \<and> primary (nics ex_temp (nic (heap ex_temp 0))) (protocol (heap ex_temp 0)) = Some [0]"
    by (simp add: ex_defs)
  have a': "nic (heap ex_temp 0) = 0" "ep_ID (ep (heap ex_temp 0)) = ex_addr"
    "protocol (heap ex_temp 0) = IPv4ProtocolNumber" "trace ex_temp = []"
    by (simp_all add: ex_defs)
  have b: "refs (heap ex_bound 0) = 1 \<and> registered ex_bound 0 \<and> holdsInsertRef (heap ex_bound 0)"
    by (simp add: ex_defs)
  have b': "trace ex_bound = []"
    by (simp add: ex_defs)
  have c: "\<not> registered ex_replaced 0"
    by (simp add: ex_defs)
  have d: "initial ex_world \<and> trace ex_world = []"
    by (simp add: ex_world_initial) (simp add: ex_world_def)
  note T = decRef_zero_teardown
  have e: "closes (world_of (run ex_world ex_ops)) 0 \<le> 1"
    using T [of ex_temp 0 "[0]" ex_world ex_ops 0] d by blast
  have f: "\<exists>w'. decRef ex_temp 0 = Returns () w'
         \<and> trace w' = trace ex_temp @ [EvClose 0]
         \<and> endpoints (nics w' (nic (heap ex_temp 0))) (ep_ID (ep (heap ex_temp 0))) = None
         \<and> primary (nics w' (nic (heap ex_temp 0))) (protocol (heap ex_temp 0))
             = Some (removeAll 0 [0])
         \<and> 0 \<notin> set (removeAll 0 [0])
         \<and> \<not> registered w' 0"
    using T [of ex_temp 0 "[0]" ex_world ex_ops 0] a by auto
  have g: "\<exists>w'. decRef ex_bound 0 = Panics RefCountDroppedBeforeRemoved w' \<and> trace w' = trace ex_bound"
    using T [of ex_bound 0 "[]" ex_world ex_ops 0] b by auto
  have h: "removeEndpoint ex_replaced 0 = Returns () ex_replaced"
    using T [of ex_replaced 0 "[]" ex_world ex_ops 0] c by auto
  show ?thesis
    using e f g h by (auto simp: a' b')
qed

text \<open>
  Counterexample to C1 as stated.  The borrower of the temporary binding 0 decrements
  its count and observes zero; before it takes the lock a second frame for the same
  address is resolved, which replaces binding 0 by binding 1 and closes binding 0
  there; the cleanup of the decrement that observed zero then finds the entry replaced
  and tears nothing down.
\<close>

theorem decRef_zero_replaced_counterexample:
  "fst (AddInt32_refs ex_temp 0 (- 1)) = 0
   \<and> removeEndpoint ex_replaced 0 = Returns () ex_replaced
   \<and> trace ex_replaced = [EvClose 0]
   \<and> endpoints (nics ex_replaced 0) ex_addr = Some 1"
proof -
  have "\<not> registered ex_replaced 0"
    by (simp add: ex_defs)
  then have "removeEndpoint ex_replaced 0 = Returns () ex_replaced"
    by (rule removeEndpoint_not_registered)
  moreover have "fst (AddInt32_refs ex_temp 0 (- 1)) = 0"
    by (simp add: ex_defs)
  moreover have "endpoints (nics ex_replaced 0) ex_addr = Some 1"
    by (simp add: ex_defs)
  moreover have "trace ex_replaced = [EvClose 0]"
    by (simp add: ex_defs)
  ultimately show ?thesis by simp
qed

end
